theory Spec2Isabelle
  imports Complex_Main
begin

section \<open>Data model\<close>

text \<open>
  The program reads a GPX recording (parsed by the gpxpy library), flattens it into a list
  of \<open>(lat, lon, time)\<close> tuples (\<open>collect_points\<close>) and walks that list, asking a
  reverse-geocoding service for the street of every retained point and debouncing the
  answers (\<open>process_points\<close>).

  A \<open>datetime\<close> has microsecond resolution and is either naive or aware of its time
  zone. A naive one is modelled by the microseconds of its reading since a fixed epoch,
  an aware one by the microseconds of its instant in UTC since that epoch (gpxpy attaches
  fixed offsets from UTC, for which the difference of two aware datetimes is the
  difference of their instants). The difference of two datetimes is a \<open>timedelta\<close>,
  modelled by its integer number of microseconds; subtracting a naive and an aware
  datetime raises \<open>TypeError\<close>.

  A Python float is a double. A finite one is modelled by the real number it holds, and
  an operation on floats by the exact operation on the reals followed by the rounding to
  the nearest double where the operation rounds. Infinities and NaN are not values of
  the model, and the two zeros are one. Latitude and longitude are only passed on.
\<close>

datatype datetime = Naive int | Aware int

datatype error = ZeroDivisionError | IndexError | TypeError

fun datetime_sub :: "datetime \<Rightarrow> datetime \<Rightarrow> error + int" where
  "datetime_sub (Naive a) (Naive b) = Inr (a - b)"
| "datetime_sub (Aware a) (Aware b) = Inr (a - b)"
| "datetime_sub (Naive a) (Aware b) = Inl TypeError"
| "datetime_sub (Aware a) (Naive b) = Inl TypeError"

record gpx_point =
  latitude :: real
  longitude :: real
  time :: "datetime option"

text \<open>
  In gpxpy both a track segment and a route have an attribute \<open>points\<close>; the two fields
  are named \<open>seg_points\<close> and \<open>route_points\<close> here, since field names are global.
\<close>

record segment =
  seg_points :: "gpx_point list"

record track =
  segments :: "segment list"

record route =
  route_points :: "gpx_point list"

record gpx =
  tracks :: "track list"
  routes :: "route list"
  waypoints :: "gpx_point list"

text \<open>An element of the list \<open>collect_points\<close> builds: the tuple \<open>(lat, lon, time)\<close>.\<close>

type_synonym sample = "real \<times> real \<times> datetime option"

section \<open>The point collector\<close>

text \<open>
  \<open>collect_points\<close> appends to one list \<open>points\<close> in nested \<open>for\<close> loops. Each loop is a
  recursive function over the list it walks, with the list built so far as accumulator.
\<close>

definition as_tuple :: "gpx_point \<Rightarrow> sample" where
  "as_tuple pt = (latitude pt, longitude pt, time pt)"

fun append_points :: "sample list \<Rightarrow> gpx_point list \<Rightarrow> sample list" where
  "append_points points [] = points"
| "append_points points (pt # pts) = append_points (points @ [as_tuple pt]) pts"

fun append_segments :: "sample list \<Rightarrow> segment list \<Rightarrow> sample list" where
  "append_segments points [] = points"
| "append_segments points (s # ss) = append_segments (append_points points (seg_points s)) ss"

fun append_tracks :: "sample list \<Rightarrow> track list \<Rightarrow> sample list" where
  "append_tracks points [] = points"
| "append_tracks points (t # ts) = append_tracks (append_segments points (segments t)) ts"

fun append_routes :: "sample list \<Rightarrow> route list \<Rightarrow> sample list" where
  "append_routes points [] = points"
| "append_routes points (r # rs) = append_routes (append_points points (route_points r)) rs"

text \<open>
  The three stages of \<open>collect_points\<close>. The early \<open>return\<close> of the first two stages
  sits inside the \<open>if gpx.tracks:\<close> (\<open>if gpx.routes:\<close>) block, as in the source.
\<close>

definition collect_points :: "gpx \<Rightarrow> sample list" where
  "collect_points g =
     (let points0 = [];
          points1 = (if tracks g \<noteq> [] then append_tracks points0 (tracks g) else points0)
      in if tracks g \<noteq> [] \<and> points1 \<noteq> [] then points1
         else
           let points2 = (if routes g \<noteq> [] then append_routes points1 (routes g) else points1)
           in if routes g \<noteq> [] \<and> points2 \<noteq> [] then points2
              else if waypoints g \<noteq> [] then append_points points2 (waypoints g)
              else points2)"

text \<open>The declarative reading of the three sources, in document order.\<close>

definition track_points :: "gpx \<Rightarrow> gpx_point list" where
  "track_points g = concat (map (\<lambda>t. concat (map seg_points (segments t))) (tracks g))"

definition all_route_points :: "gpx \<Rightarrow> gpx_point list" where
  "all_route_points g = concat (map route_points (routes g))"

section \<open>Printing a time offset\<close>

subsection \<open>Rounding to a double\<close>

text \<open>
  A double has 53 significant bits. \<open>round_double\<close> rounds a real to the nearest double,
  a tie to the one with an even significand: for \<open>2^e \<le> \<bar>x\<bar> < 2^(e+1)\<close> the doubles
  around \<open>x\<close> are the multiples of \<open>2^(e-52)\<close>. The range of the exponent is not
  modelled (no overflow to infinity, no subnormal numbers). None of the roundings below
  leaves that range: they are applied to a difference of two times in seconds, and, in
  the division of a double by 60, to numbers that are zero or multiples of the unit of a
  double of magnitude 1 or more.
\<close>

definition round_half_even :: "real \<Rightarrow> int" where
  "round_half_even r =
     (let f = \<lfloor>r\<rfloor>; d = r - of_int f
      in if d < 1 / 2 then f else if 1 / 2 < d then f + 1 else if even f then f else f + 1)"

definition pow2 :: "int \<Rightarrow> real" where
  "pow2 e = (if 0 \<le> e then 2 ^ nat e else 1 / 2 ^ nat (- e))"

definition round_double :: "real \<Rightarrow> real" where
  "round_double x =
     (if x = 0 then 0
      else
        let ulp = pow2 (\<lfloor>log 2 \<bar>x\<bar>\<rfloor> - 52)
        in sgn x * (ulp * of_int (round_half_even (\<bar>x\<bar> / ulp))))"

subsection \<open>Floor division, remainder and truncation of floats\<close>

text \<open>
  \<open>int(x)\<close> truncates toward zero. C's \<open>fmod\<close> is exact: \<open>x\<close> minus \<open>y\<close> times the
  truncated quotient. Python's \<open>x % y\<close> on floats is \<open>fmod(x, y)\<close>, to which \<open>y\<close> is
  added when it is not zero and its sign differs from that of \<open>y\<close>. Python's \<open>x // y\<close>
  divides \<open>x - fmod(x, y)\<close> by \<open>y\<close>, subtracts 1 in the case just named, and snaps the
  result to the nearest integral value: its floor, or one more when the rest exceeds
  one half. The subtraction, the division and the additions round to a double. Both
  raise \<open>ZeroDivisionError\<close> for \<open>y = 0\<close>; the code divides by the constant 60 only.
\<close>

definition py_int :: "real \<Rightarrow> int" where
  "py_int x = (if 0 \<le> x then \<lfloor>x\<rfloor> else \<lceil>x\<rceil>)"

definition fmod :: "real \<Rightarrow> real \<Rightarrow> real" where
  "fmod x y = x - y * of_int (py_int (x / y))"

definition py_mod :: "real \<Rightarrow> real \<Rightarrow> real" where
  "py_mod x y =
     (let m = fmod x y
      in if m \<noteq> 0 then (if (y < 0) \<noteq> (m < 0) then round_double (m + y) else m) else 0)"

definition py_floordiv :: "real \<Rightarrow> real \<Rightarrow> real" where
  "py_floordiv x y =
     (let m = fmod x y;
          d0 = round_double (round_double (x - m) / y);
          d = (if m \<noteq> 0 \<and> (y < 0) \<noteq> (m < 0) then round_double (d0 - 1) else d0)
      in if d \<noteq> 0 then
           (let f = of_int \<lfloor>d\<rfloor>
            in if 1 / 2 < round_double (d - f) then round_double (f + 1) else f)
         else 0)"

subsection \<open>The format\<close>

text \<open>
  \<open>format_time_delta\<close> computes \<open>int(seconds // 60)\<close> and \<open>int(seconds % 60)\<close> and
  prints both with the format \<open>02d\<close>, which pads with zeros to a width of at least two
  characters, the sign counted.
\<close>

definition digit_char :: "nat \<Rightarrow> char" where
  "digit_char d = ''0123456789'' ! d"

fun decimal :: "nat \<Rightarrow> string" where
  "decimal n = (if n < 10 then [digit_char n] else decimal (n div 10) @ [digit_char (n mod 10)])"

declare decimal.simps [simp del]

definition zfill :: "nat \<Rightarrow> string \<Rightarrow> string" where
  "zfill w s = replicate (w - length s) (CHR ''0'') @ s"

definition format_02d :: "int \<Rightarrow> string" where
  "format_02d n =
     (if n < 0 then CHR ''-'' # zfill 1 (decimal (nat (- n))) else zfill 2 (decimal (nat n)))"

definition format_time_delta :: "real \<Rightarrow> string" where
  "format_time_delta seconds =
     (let mm = py_int (py_floordiv seconds 60);
          ss = py_int (py_mod seconds 60)
      in format_02d mm @ '':'' @ format_02d ss)"

section \<open>The street debouncer\<close>

text \<open>
  The three local variables of \<open>process_points\<close> that the loop updates. A street is
  \<open>None\<close> or a string.
\<close>

record debouncer =
  confirmed_street :: "string option"
  candidate_street :: "string option"
  candidate_times :: "real list"

definition initial :: debouncer where
  "initial = \<lparr>confirmed_street = None, candidate_street = None, candidate_times = []\<rparr>"

text \<open>A confirmed event: the offset and the street of one printed line.\<close>

type_synonym event = "real \<times> string"

text \<open>What the classifier answered for a retained point, and the point's time offset.\<close>

type_synonym labelled = "string option \<times> real"

text \<open>
  The body of the loop after the classifier has answered, lines 160 to 183: the new
  state and the events printed by this iteration. \<open>not street\<close> holds for \<open>None\<close> and
  for the empty string. The printed offset \<open>candidate_times[0]\<close> is read from the list
  just extended, which is never empty.
\<close>

definition step :: "int \<Rightarrow> debouncer \<Rightarrow> labelled \<Rightarrow> debouncer \<times> event list" where
  "step threshold st x =
     (case x of (street, time_diff) \<Rightarrow>
        (case street of
           None \<Rightarrow> (st, [])
         | Some name \<Rightarrow>
             if name = [] then (st, [])
             else if street = confirmed_street st then
               (st\<lparr>candidate_street := None, candidate_times := []\<rparr>, [])
             else if street = candidate_street st then
               (let times = candidate_times st @ [time_diff] in
                  if threshold \<le> int (length times) then
                    (st\<lparr>candidate_times := times, confirmed_street := candidate_street st\<rparr>,
                     [(hd times, name)])
                  else (st\<lparr>candidate_times := times\<rparr>, []))
             else (st\<lparr>candidate_street := street, candidate_times := [time_diff]\<rparr>, [])))"

text \<open>The loop over the answers for the retained points, from any state.\<close>

fun debounce :: "int \<Rightarrow> debouncer \<Rightarrow> labelled list \<Rightarrow> debouncer \<times> event list" where
  "debounce threshold st [] = (st, [])"
| "debounce threshold st (x # xs) =
     (case step threshold st x of (st1, out1) \<Rightarrow>
        (case debounce threshold st1 xs of (st2, out2) \<Rightarrow> (st2, out1 @ out2)))"

text \<open>
  The code after the loop, lines 187 to 190. \<open>candidate_times[0]\<close> raises on an empty
  list.
\<close>

definition finalize :: "int \<Rightarrow> debouncer \<Rightarrow> error + event list" where
  "finalize final_threshold st =
     (case candidate_street st of
        None \<Rightarrow> Inr []
      | Some name \<Rightarrow>
          if name \<noteq> [] \<and> candidate_street st \<noteq> confirmed_street st then
            if final_threshold \<le> int (length (candidate_times st)) then
              (case candidate_times st of
                 [] \<Rightarrow> Inl IndexError
               | t0 # _ \<Rightarrow> Inr [(t0, name)])
            else Inr []
          else Inr [])"

subsection \<open>Start time and time offsets\<close>

fun find_start_time :: "sample list \<Rightarrow> datetime option" where
  "find_start_time [] = None"
| "find_start_time ((lat, lon, t) # points) =
     (case t of Some v \<Rightarrow> Some v | None \<Rightarrow> find_start_time points)"

text \<open>
  \<open>timedelta.total_seconds()\<close> is the true division of the integer number of
  microseconds by \<open>10^6\<close>, which Python rounds correctly to a double.
\<close>

definition total_seconds :: "int \<Rightarrow> real" where
  "total_seconds microseconds = round_double (real_of_int microseconds / 1000000)"

text \<open>
  Lines 149 to 152. A datetime is always truthy, so the test is for \<open>None\<close>. The
  subtraction \<open>point_time - start_time\<close> raises when one of the two is naive and the
  other aware.
\<close>

definition time_diff_of :: "datetime option \<Rightarrow> datetime option \<Rightarrow> error + real" where
  "time_diff_of start_time point_time =
     (case start_time of
        None \<Rightarrow> Inr 0
      | Some s \<Rightarrow>
          (case point_time of
             None \<Rightarrow> Inr 0
           | Some t \<Rightarrow>
               (case datetime_sub t s of
                  Inl e \<Rightarrow> Inl e
                | Inr delta \<Rightarrow> Inr (total_seconds delta))))"

subsection \<open>The whole of \<open>process_points\<close>\<close>

text \<open>
  The reverse-geocoding service \<open>get_street_name\<close> is a parameter: a function from the
  coordinates to the street it answers (\<open>None\<close> on any failure). The pause before each
  request and the debug output are not modelled.

  The loop of lines 141 to 183 over \<open>enumerate(points)\<close>: \<open>i\<close> is the index of the head
  of the list. \<open>i % downsample\<close> raises when \<open>downsample\<close> is zero; for other values
  Python's remainder on integers is \<open>mod\<close> on \<open>int\<close> (both take the divisor's sign).
  The offset is computed before the classifier is asked. The result is the state and
  the events printed when the loop ended, and the exception that ended it, if any.
\<close>

fun loop ::
  "(real \<Rightarrow> real \<Rightarrow> string option) \<Rightarrow> int \<Rightarrow> int \<Rightarrow> datetime option \<Rightarrow> nat \<Rightarrow> debouncer \<Rightarrow>
   sample list \<Rightarrow> (debouncer \<times> event list) \<times> error option" where
  "loop get_street_name downsample threshold start_time i st [] = ((st, []), None)"
| "loop get_street_name downsample threshold start_time i st ((lat, lon, point_time) # points) =
     (if downsample = 0 then ((st, []), Some ZeroDivisionError)
      else if int i mod downsample \<noteq> 0 then
        loop get_street_name downsample threshold start_time (Suc i) st points
      else
        (case time_diff_of start_time point_time of
           Inl e \<Rightarrow> ((st, []), Some e)
         | Inr time_diff \<Rightarrow>
             (case step threshold st (get_street_name lat lon, time_diff) of
                (st1, out1) \<Rightarrow>
                  (case loop get_street_name downsample threshold start_time (Suc i) st1 points of
                     ((st2, out2), exc) \<Rightarrow> ((st2, out1 @ out2), exc)))))"

definition print_event :: "event \<Rightarrow> string" where
  "print_event ev = format_time_delta (fst ev) @ '' '' @ snd ev"

text \<open>The result of a run: the lines printed, and the exception that ended it, if any.\<close>

definition process_points ::
  "(real \<Rightarrow> real \<Rightarrow> string option) \<Rightarrow> sample list \<Rightarrow> int \<Rightarrow> int \<Rightarrow> int \<Rightarrow>
   string list \<times> error option" where
  "process_points get_street_name points downsample threshold final_threshold =
     (if points = [] then ([''No track, route, or waypoint data found in this GPX.''], None)
      else
        (case loop get_street_name downsample threshold (find_start_time points) 0 initial points of
           ((st, out), Some e) \<Rightarrow> (map print_event out, Some e)
         | ((st, out), None) \<Rightarrow>
             (case finalize final_threshold st of
                Inl e \<Rightarrow> (map print_event out, Some e)
              | Inr fin \<Rightarrow> (map print_event (out @ fin), None))))"

text \<open>
  The retained points seen as a stream: the points at the indices \<open>i, i + 1, \<dots>\<close> that
  are multiples of \<open>downsample\<close>, each with the classifier's answer and its offset, or
  with the exception its offset raises. The loop processes the stream up to the first
  exception.
\<close>

fun retained :: "int \<Rightarrow> nat \<Rightarrow> 'a list \<Rightarrow> 'a list" where
  "retained downsample i [] = []"
| "retained downsample i (p # ps) =
     (if int i mod downsample = 0 then p # retained downsample (Suc i) ps
      else retained downsample (Suc i) ps)"

definition label_of ::
  "(real \<Rightarrow> real \<Rightarrow> string option) \<Rightarrow> datetime option \<Rightarrow> sample \<Rightarrow> error + labelled" where
  "label_of get_street_name start_time p =
     (case p of (lat, lon, point_time) \<Rightarrow>
        (case time_diff_of start_time point_time of
           Inl e \<Rightarrow> Inl e
         | Inr time_diff \<Rightarrow> Inr (get_street_name lat lon, time_diff)))"

fun processed :: "(error + 'a) list \<Rightarrow> 'a list" where
  "processed [] = []"
| "processed (Inl e # xs) = []"
| "processed (Inr x # xs) = x # processed xs"

fun raised :: "(error + 'a) list \<Rightarrow> error option" where
  "raised [] = None"
| "raised (Inl e # xs) = Some e"
| "raised (Inr x # xs) = raised xs"

text \<open>
  What holds of the three variables between iterations, whatever was processed: neither
  street is the empty string, and the list of times is empty exactly when there is no
  candidate.
\<close>

definition consistent :: "debouncer \<Rightarrow> bool" where
  "consistent st =
     (candidate_street st \<noteq> Some [] \<and> confirmed_street st \<noteq> Some [] \<and>
      ((candidate_street st = None) = (candidate_times st = [])))"

section \<open>The point collector: proofs\<close>

lemma append_points_eq: "append_points points pts = points @ map as_tuple pts"
  by (induction pts arbitrary: points) simp_all

lemma append_segments_eq:
  "append_segments points ss = points @ map as_tuple (concat (map seg_points ss))"
  by (induction ss arbitrary: points) (simp_all add: append_points_eq)

lemma append_tracks_eq:
  "append_tracks points ts =
     points @ map as_tuple (concat (map (\<lambda>t. concat (map seg_points (segments t))) ts))"
  by (induction ts arbitrary: points) (simp_all add: append_segments_eq)

lemma append_routes_eq:
  "append_routes points rs = points @ map as_tuple (concat (map route_points rs))"
  by (induction rs arbitrary: points) (simp_all add: append_points_eq)

section \<open>The debouncer: basic facts\<close>

lemma debounce_append:
  "debounce threshold st (xs @ ys) =
     (case debounce threshold st xs of (st1, out1) \<Rightarrow>
        (case debounce threshold st1 ys of (st2, out2) \<Rightarrow> (st2, out1 @ out2)))"
  by (induction xs arbitrary: st) (auto split: prod.splits)

lemma debounce_Cons_fst:
  "fst (debounce threshold st (x # xs)) = fst (debounce threshold (fst (step threshold st x)) xs)"
  by (simp add: case_prod_beta)

lemma debounce_Cons_snd:
  "snd (debounce threshold st (x # xs)) =
     snd (step threshold st x) @ snd (debounce threshold (fst (step threshold st x)) xs)"
  by (simp add: case_prod_beta)

lemma step_None: "step threshold st (None, t) = (st, [])"
  by (simp add: step_def)

lemma step_empty: "step threshold st (Some [], t) = (st, [])"
  by (simp add: step_def)

lemma consistent_initial: "consistent initial"
  by (simp add: consistent_def initial_def)

lemma step_consistent: "consistent st \<Longrightarrow> consistent (fst (step threshold st x))"
  by (cases x) (auto simp: consistent_def step_def Let_def split: option.splits)

lemma debounce_consistent:
  "consistent st \<Longrightarrow> consistent (fst (debounce threshold st xs))"
proof (induction xs arbitrary: st)
  case Nil
  then show ?case by simp
next
  case (Cons x xs)
  from Cons.prems have "consistent (fst (step threshold st x))"
    by (rule step_consistent)
  then have "consistent (fst (debounce threshold (fst (step threshold st x)) xs))"
    by (rule Cons.IH)
  then show ?case by (simp only: debounce_Cons_fst)
qed

lemma step_event_names: "e \<in> set (snd (step threshold st x)) \<Longrightarrow> snd e \<noteq> []"
  by (cases x) (auto simp: step_def Let_def split: option.splits if_splits)

lemma debounce_event_names:
  "e \<in> set (snd (debounce threshold st xs)) \<Longrightarrow> snd e \<noteq> []"
proof (induction xs arbitrary: st)
  case Nil
  then show ?case by simp
next
  case (Cons x xs)
  obtain st1 out1 where s: "step threshold st x = (st1, out1)"
    by (cases "step threshold st x")
  obtain st2 out2 where d: "debounce threshold st1 xs = (st2, out2)"
    by (cases "debounce threshold st1 xs")
  from Cons.prems s d have "e \<in> set out1 \<or> e \<in> set out2" by simp
  then show ?case
  proof
    assume "e \<in> set out1"
    then show ?thesis using step_event_names [of e threshold st x] s by simp
  next
    assume "e \<in> set out2"
    then show ?thesis using Cons.IH [of st1] d by simp
  qed
qed

lemma finalize_event_names:
  "finalize final_threshold st = Inr fin \<Longrightarrow> e \<in> set fin \<Longrightarrow> snd e \<noteq> []"
  by (auto simp: finalize_def split: option.splits if_splits list.splits)

lemma debounce_never_raises:
  "\<exists>fin. finalize final_threshold (fst (debounce threshold initial xs)) = Inr fin"
proof -
  have "consistent (fst (debounce threshold initial xs))"
    using consistent_initial by (rule debounce_consistent)
  then show ?thesis
    by (auto simp: finalize_def consistent_def split: option.splits list.splits)
qed

section \<open>The loop over the points and the stream of answers\<close>

lemma loop_zero:
  "loop g 0 threshold start i st (p # ps) = ((st, []), Some ZeroDivisionError)"
  by (cases p) simp

lemma loop_debounce:
  "downsample \<noteq> 0 \<Longrightarrow>
   loop g downsample threshold start i st points =
     (debounce threshold st (processed (map (label_of g start) (retained downsample i points))),
      raised (map (label_of g start) (retained downsample i points)))"
proof (induction points arbitrary: i st)
  case Nil
  then show ?case by simp
next
  case (Cons p points)
  obtain lat lon pt where p: "p = (lat, lon, pt)" by (cases p)
  show ?case
  proof (cases "int i mod downsample = 0")
    case False
    with Cons p show ?thesis by simp
  next
    case True
    show ?thesis
    proof (cases "time_diff_of start pt")
      case (Inl e)
      with True Cons.prems p show ?thesis by (simp add: label_of_def)
    next
      case (Inr td)
      with True Cons p show ?thesis
        by (simp add: label_of_def split: prod.splits)
    qed
  qed
qed

lemma process_points_raises:
  "snd (process_points g points downsample threshold final_threshold) = Some e
     \<longleftrightarrow> points \<noteq> [] \<and>
         (if downsample = 0 then e = ZeroDivisionError
          else raised (map (label_of g (find_start_time points)) (retained downsample 0 points))
                 = Some e)"
proof (cases "points = []")
  case True
  then show ?thesis by (simp add: process_points_def)
next
  case ne: False
  then obtain p ps where ps: "points = p # ps" by (cases points) auto
  show ?thesis
  proof (cases "downsample = 0")
    case True
    with ps show ?thesis by (auto simp: process_points_def loop_zero)
  next
    case False
    let ?L = "map (label_of g (find_start_time points)) (retained downsample 0 points)"
    obtain fin where fin:
      "finalize final_threshold (fst (debounce threshold initial (processed ?L))) = Inr fin"
      using debounce_never_raises by blast
    show ?thesis
    proof (cases "raised ?L")
      case None
      with False ne fin show ?thesis
        by (simp add: process_points_def loop_debounce case_prod_beta)
    next
      case (Some e')
      with False ne show ?thesis
        by (simp add: process_points_def loop_debounce case_prod_beta)
    qed
  qed
qed

lemma raised_None_processed:
  "raised xs = None \<Longrightarrow> map Inr (processed xs) = xs"
proof (induction xs)
  case Nil
  then show ?case by simp
next
  case (Cons x xs)
  then show ?case by (cases x) simp_all
qed

lemma retained_indices:
  "retained downsample i ps =
     map (\<lambda>k. ps ! (k - i)) (filter (\<lambda>k. int k mod downsample = 0) [i..<i + length ps])"
proof (induction ps arbitrary: i)
  case Nil
  then show ?case by simp
next
  case (Cons p ps)
  have up: "[i..<i + length (p # ps)] = i # [Suc i..<Suc i + length ps]"
    by (subst upt_rec) simp
  have tl: "map (\<lambda>k. (p # ps) ! (k - i)) (filter (\<lambda>k. int k mod downsample = 0) [Suc i..<Suc i + length ps])
          = map (\<lambda>k. ps ! (k - Suc i)) (filter (\<lambda>k. int k mod downsample = 0) [Suc i..<Suc i + length ps])"
  proof (rule map_cong [OF refl])
    fix k
    assume "k \<in> set (filter (\<lambda>k. int k mod downsample = 0) [Suc i..<Suc i + length ps])"
    then have "i < k" by auto
    then show "(p # ps) ! (k - i) = ps ! (k - Suc i)" by (simp add: nth_Cons')
  qed
  show ?case
    unfolding up using tl Cons.IH [of "Suc i"] by simp
qed

lemma find_start_time_first:
  "\<forall>p \<in> set pre. snd (snd p) = None \<Longrightarrow>
   find_start_time (pre @ (lat, lon, Some t) # post) = Some t"
  by (induction pre) auto

lemma find_start_time_none:
  "\<forall>p \<in> set points. snd (snd p) = None \<Longrightarrow> find_start_time points = None"
  by (induction points) auto

section \<open>Rounding to a double: proofs\<close>

lemma pow2_powr: "pow2 e = 2 powr of_int e"
  by (simp add: pow2_def powr_int)

lemma pow2_pos: "0 < pow2 e"
  by (simp add: pow2_powr)

lemma pow2_add: "pow2 (a + b) = pow2 a * pow2 b"
  by (simp add: pow2_powr powr_add)

lemma pow2_mono: "a \<le> b \<Longrightarrow> pow2 a \<le> pow2 b"
  by (simp add: pow2_powr)

lemma pow2_nat: "pow2 (int n) = 2 ^ n"
  by (simp add: pow2_def)

lemma pow2_neg: "pow2 (- int n) = 1 / 2 ^ n"
  by (cases "n = 0") (simp_all add: pow2_def)

lemma pow2_less: "pow2 a < pow2 b \<Longrightarrow> a < b"
  by (simp add: pow2_powr)

lemma round_half_even_of_int: "round_half_even (of_int n) = n"
  by (simp add: round_half_even_def)

lemma round_half_even_bounds:
  "of_int (round_half_even r) \<le> r + 1 / 2" "r - 1 / 2 \<le> of_int (round_half_even r)"
  "\<lfloor>r\<rfloor> \<le> round_half_even r" "round_half_even r \<le> \<lfloor>r\<rfloor> + 1"
  by (auto simp: round_half_even_def Let_def) linarith+

lemma round_half_even_mono:
  assumes "r \<le> s"
  shows "round_half_even r \<le> round_half_even s"
proof (cases "\<lfloor>r\<rfloor> = \<lfloor>s\<rfloor>")
  case True
  with assms show ?thesis
    by (auto simp: round_half_even_def Let_def)
next
  case False
  with assms have "\<lfloor>r\<rfloor> < \<lfloor>s\<rfloor>"
    using floor_mono [of r s] by linarith
  then have "round_half_even r \<le> \<lfloor>s\<rfloor>"
    using round_half_even_bounds(4) [of r] by linarith
  then show ?thesis
    using round_half_even_bounds(3) [of s] by linarith
qed

lemma binade:
  assumes "0 < x"
  shows "pow2 \<lfloor>log 2 x\<rfloor> \<le> x" and "x < pow2 (\<lfloor>log 2 x\<rfloor> + 1)"
  using assms floor_log_eq_powr_iff [of x 2 "\<lfloor>log 2 x\<rfloor>"]
  by (simp_all add: pow2_powr)

lemma binade_unique:
  assumes "pow2 e \<le> x" and "x < pow2 (e + 1)"
  shows "\<lfloor>log 2 x\<rfloor> = e"
proof -
  from assms(1) have "0 < x" using pow2_pos [of e] by linarith
  then show ?thesis
    using assms floor_log_eq_powr_iff [of x 2 e] by (simp add: pow2_powr)
qed

lemma round_double_pos:
  assumes "pow2 e \<le> x" and "x < pow2 (e + 1)"
  shows "round_double x = pow2 (e - 52) * of_int (round_half_even (x / pow2 (e - 52)))"
proof -
  from assms(1) have "0 < x" using pow2_pos [of e] by linarith
  moreover have "\<lfloor>log 2 x\<rfloor> = e" using assms by (rule binade_unique)
  ultimately show ?thesis by (simp add: round_double_def Let_def)
qed

lemma round_double_minus: "round_double (- x) = - round_double x"
  by (simp add: round_double_def Let_def)

lemma round_double_0: "round_double 0 = 0"
  by (simp add: round_double_def)

lemma round_double_range:
  assumes "pow2 e \<le> x" and "x < pow2 (e + 1)"
  shows "pow2 e \<le> round_double x" and "round_double x \<le> pow2 (e + 1)"
proof -
  let ?u = "pow2 (e - 52)"
  have u: "0 < ?u" by (rule pow2_pos)
  have e: "pow2 e = ?u * 2 ^ 52"
    using pow2_add [of "e - 52" 52] pow2_nat [of 52] by simp
  have e1: "pow2 (e + 1) = ?u * 2 ^ 53"
    using pow2_add [of "e - 52" 53] pow2_nat [of 53] by (simp add: add.commute)
  from assms e u have "2 ^ 52 \<le> x / ?u"
    by (simp add: pos_le_divide_eq mult.commute)
  then have "round_half_even (of_int (2 ^ 52)) \<le> round_half_even (x / ?u)"
    by (intro round_half_even_mono) simp
  then have lo: "(2 ^ 52 :: real) \<le> of_int (round_half_even (x / ?u))"
    unfolding round_half_even_of_int by (metis of_int_le_iff of_int_numeral of_int_power)
  from assms e1 u have "x / ?u \<le> 2 ^ 53"
    by (simp add: pos_divide_le_eq mult.commute)
  then have "round_half_even (x / ?u) \<le> round_half_even (of_int (2 ^ 53))"
    by (intro round_half_even_mono) simp
  then have hi: "of_int (round_half_even (x / ?u)) \<le> (2 ^ 53 :: real)"
    unfolding round_half_even_of_int by (metis of_int_le_iff of_int_numeral of_int_power)
  have rd: "round_double x = ?u * of_int (round_half_even (x / ?u))"
    using assms by (rule round_double_pos)
  from lo u show "pow2 e \<le> round_double x"
    unfolding rd e by simp
  from hi u show "round_double x \<le> pow2 (e + 1)"
    unfolding rd e1 by simp
qed

lemma round_double_mono_pos:
  assumes "0 < x" and "x \<le> y"
  shows "round_double x \<le> round_double y"
proof -
  let ?e = "\<lfloor>log 2 x\<rfloor>" and ?f = "\<lfloor>log 2 y\<rfloor>"
  from assms have y: "0 < y" by simp
  have bx: "pow2 ?e \<le> x" "x < pow2 (?e + 1)" using assms(1) by (rule binade)+
  have "by": "pow2 ?f \<le> y" "y < pow2 (?f + 1)" using y by (rule binade)+
  from assms have "log 2 x \<le> log 2 y" by simp
  then have ef: "?e \<le> ?f" by (rule floor_mono)
  show ?thesis
  proof (cases "?e = ?f")
    case True
    let ?u = "pow2 (?e - 52)"
    have u: "0 < ?u" by (rule pow2_pos)
    from assms u have "x / ?u \<le> y / ?u" by (simp add: divide_right_mono)
    then have "round_half_even (x / ?u) \<le> round_half_even (y / ?u)"
      by (rule round_half_even_mono)
    then have "?u * of_int (round_half_even (x / ?u)) \<le> ?u * of_int (round_half_even (y / ?u))"
      using u by simp
    then show ?thesis
      using round_double_pos [OF bx] round_double_pos [OF "by"] True by simp
  next
    case False
    with ef have "?e + 1 \<le> ?f" by simp
    then have "pow2 (?e + 1) \<le> pow2 ?f" by (rule pow2_mono)
    moreover have "round_double x \<le> pow2 (?e + 1)" using bx by (rule round_double_range)
    moreover have "pow2 ?f \<le> round_double y" using "by" by (rule round_double_range)
    ultimately show ?thesis by linarith
  qed
qed

lemma round_double_nonneg: "0 \<le> x \<Longrightarrow> 0 \<le> round_double x"
proof (cases "x = 0")
  case True
  then show ?thesis by (simp add: round_double_0)
next
  case False
  assume "0 \<le> x"
  with False have x: "0 < x" by simp
  have "pow2 \<lfloor>log 2 x\<rfloor> \<le> round_double x"
    using binade [OF x] by (rule round_double_range)
  then show ?thesis using pow2_pos [of "\<lfloor>log 2 x\<rfloor>"] by linarith
qed

lemma round_double_mono:
  assumes "x \<le> y"
  shows "round_double x \<le> round_double y"
proof -
  consider "0 < x" | "x \<le> 0" "0 \<le> y" | "y < 0" by linarith
  then show ?thesis
  proof cases
    case 1
    then show ?thesis using assms by (rule round_double_mono_pos)
  next
    case 2
    have "0 \<le> round_double (- x)" using 2(1) by (intro round_double_nonneg) simp
    then have "round_double x \<le> 0" by (simp add: round_double_minus)
    moreover have "0 \<le> round_double y" using 2(2) by (rule round_double_nonneg)
    ultimately show ?thesis by linarith
  next
    case 3
    with assms have "0 < - y" and "- y \<le> - x" by simp_all
    then have "round_double (- y) \<le> round_double (- x)" by (rule round_double_mono_pos)
    then show ?thesis by (simp add: round_double_minus)
  qed
qed

lemma round_double_of_int:
  assumes "\<bar>n\<bar> < 2 ^ 53"
  shows "round_double (of_int n) = of_int n"
proof -
  have pos: "round_double (of_int m) = of_int m" if m: "0 < m" "m < 2 ^ 53" for m :: int
  proof -
    let ?x = "real_of_int m"
    let ?e = "\<lfloor>log 2 ?x\<rfloor>"
    from m have x: "0 < ?x" by simp
    have bx: "pow2 ?e \<le> ?x" "?x < pow2 (?e + 1)" using x by (rule binade)+
    have "?x < pow2 53"
      using m(2) by (simp add: pow2_def)
    with bx(1) have "pow2 ?e < pow2 53" by linarith
    then have "?e < 53" by (rule pow2_less)
    then obtain k where k: "52 - ?e = int k" using nonneg_int_cases [of "52 - ?e"] by auto
    then have ek: "?e - 52 = - int k" by simp
    have u: "pow2 (?e - 52) = 1 / 2 ^ k"
      unfolding ek by (rule pow2_neg)
    have "?x / pow2 (?e - 52) = of_int (m * 2 ^ k)"
      by (simp add: u)
    then have "round_half_even (?x / pow2 (?e - 52)) = m * 2 ^ k"
      by (simp only: round_half_even_of_int)
    then show ?thesis
      using round_double_pos [OF bx] by (simp add: u)
  qed
  consider "n = 0" | "0 < n" | "n < 0" by linarith
  then show ?thesis
  proof cases
    case 1
    then show ?thesis by (simp add: round_double_0)
  next
    case 2
    with assms show ?thesis by (intro pos) simp_all
  next
    case 3
    with assms have "round_double (of_int (- n)) = of_int (- n)" by (intro pos) simp_all
    then show ?thesis by (simp add: round_double_minus)
  qed
qed

lemma round_double_error: "\<bar>round_double x - x\<bar> \<le> \<bar>x\<bar> / 2 ^ 53"
proof -
  have pos: "\<bar>round_double y - y\<bar> \<le> y / 2 ^ 53" if y: "0 < y" for y
  proof -
    let ?e = "\<lfloor>log 2 y\<rfloor>"
    let ?u = "pow2 (?e - 52)"
    have u: "0 < ?u" by (rule pow2_pos)
    have bnd: "pow2 ?e \<le> y" "y < pow2 (?e + 1)" using y by (rule binade)+
    have rd: "round_double y = ?u * of_int (round_half_even (y / ?u))"
      using bnd by (rule round_double_pos)
    have "\<bar>of_int (round_half_even (y / ?u)) - y / ?u\<bar> \<le> 1 / 2"
      using round_half_even_bounds(1,2) [of "y / ?u"] by linarith
    then have "?u * \<bar>of_int (round_half_even (y / ?u)) - y / ?u\<bar> \<le> ?u * (1 / 2)"
      using u by (simp only: mult_le_cancel_left_pos)
    moreover have "?u * \<bar>of_int (round_half_even (y / ?u)) - y / ?u\<bar> = \<bar>round_double y - y\<bar>"
    proof -
      have "?u * \<bar>of_int (round_half_even (y / ?u)) - y / ?u\<bar>
              = \<bar>?u * (of_int (round_half_even (y / ?u)) - y / ?u)\<bar>"
        using u by (simp add: abs_mult)
      also have "?u * (of_int (round_half_even (y / ?u)) - y / ?u) = round_double y - y"
        using u by (simp add: rd right_diff_distrib)
      finally show ?thesis .
    qed
    ultimately have "\<bar>round_double y - y\<bar> \<le> ?u / 2" by simp
    moreover have "?u / 2 = pow2 ?e / 2 ^ 53"
      using pow2_add [of "?e - 52" 52] pow2_nat [of 52] by simp
    moreover have "pow2 ?e / 2 ^ 53 \<le> y / 2 ^ 53"
      using bnd(1) by (simp add: divide_right_mono)
    ultimately show ?thesis by linarith
  qed
  consider "x = 0" | "0 < x" | "x < 0" by linarith
  then show ?thesis
  proof cases
    case 1
    then show ?thesis by (simp add: round_double_0)
  next
    case 2
    then show ?thesis using pos [of x] by simp
  next
    case 3
    then have "\<bar>round_double (- x) - (- x)\<bar> \<le> (- x) / 2 ^ 53" by (intro pos) simp
    with 3 show ?thesis by (simp add: round_double_minus abs_minus_commute)
  qed
qed

lemma round_double_large:
  assumes "2 ^ (52 + k) \<le> x" and "x < 2 ^ (53 + k)"
  shows "round_double x = 2 ^ k * of_int (round_half_even (x / 2 ^ k))"
  using round_double_pos [of "int (52 + k)" x] assms
  by (simp add: pow2_def nat_add_distrib)

lemma round_double_small:
  assumes "k \<le> 52" and "2 ^ (52 - k) \<le> x" and "x < 2 ^ (53 - k)"
  shows "round_double x = of_int (round_half_even (x * 2 ^ k)) / 2 ^ k"
proof -
  from assms(1) have a: "nat (int (52 - k)) = 52 - k" "nat (int (52 - k) + 1) = 53 - k" by auto
  have "pow2 (int (52 - k)) = 2 ^ (52 - k)" by (rule pow2_nat)
  moreover have "pow2 (int (52 - k) + 1) = 2 ^ (53 - k)"
  proof -
    from assms(1) have "int (52 - k) + 1 = int (53 - k)" by simp
    then show ?thesis by (simp only: pow2_nat)
  qed
  moreover have "pow2 (int (52 - k) - 52) = 1 / 2 ^ k"
  proof -
    from assms(1) have "int (52 - k) - 52 = - int k" by simp
    then show ?thesis by (simp only: pow2_neg)
  qed
  ultimately show ?thesis
    using round_double_pos [of "int (52 - k)" x] assms by simp
qed

section \<open>Printing: the two fields\<close>

lemma length_zfill: "length (zfill w s) = max w (length s)"
  by (simp add: zfill_def)

lemma two_digits:
  assumes "n < 100"
  shows "zfill 2 (decimal n) = [digit_char (n div 10), digit_char (n mod 10)]"
proof (cases "n < 10")
  case True
  then have "decimal n = [digit_char n]" by (subst decimal.simps) simp
  moreover have "digit_char 0 = CHR ''0''" by (simp add: digit_char_def)
  ultimately show ?thesis using True by (simp add: zfill_def)
next
  case False
  with assms have "n div 10 < 10" by simp
  then have "decimal (n div 10) = [digit_char (n div 10)]" by (subst decimal.simps) simp
  with False have "decimal n = [digit_char (n div 10), digit_char (n mod 10)]"
    by (subst decimal.simps) simp
  then show ?thesis by (simp add: zfill_def)
qed

lemma three_or_more_digits:
  assumes "10 \<le> n"
  shows "2 \<le> length (decimal n)"
proof -
  have "decimal (n div 10) \<noteq> []" by (subst decimal.simps) simp
  then have "1 \<le> length (decimal (n div 10))" by (cases "decimal (n div 10)") simp_all
  moreover from assms have "decimal n = decimal (n div 10) @ [digit_char (n mod 10)]"
    by (subst decimal.simps) simp
  ultimately show ?thesis by simp
qed

lemma digits_of_minutes:
  assumes "10 \<le> n"
  shows "zfill 2 (decimal n) = decimal n"
  using three_or_more_digits [OF assms] by (simp add: zfill_def)

lemma floor_div_60: "\<lfloor>s / 60\<rfloor> = \<lfloor>s\<rfloor> div 60" for s :: real
  using floor_divide_real_eq_div [of 60 s] by simp

lemma fmod_nonneg:
  assumes "0 \<le> s"
  shows "fmod s 60 = s - 60 * of_int \<lfloor>s / 60\<rfloor>"
  using assms by (simp add: fmod_def py_int_def)

lemma rest_range:
  "0 \<le> s - 60 * of_int \<lfloor>s / 60\<rfloor>" and "s - 60 * of_int \<lfloor>s / 60\<rfloor> < 60"
proof -
  have "of_int \<lfloor>s / 60\<rfloor> \<le> s / 60" and "s / 60 < of_int \<lfloor>s / 60\<rfloor> + 1"
    by linarith+
  then show "0 \<le> s - 60 * of_int \<lfloor>s / 60\<rfloor>" and "s - 60 * of_int \<lfloor>s / 60\<rfloor> < 60"
    by linarith+
qed

lemma py_mod_nonneg:
  assumes "0 \<le> s"
  shows "py_mod s 60 = s - 60 * of_int \<lfloor>s / 60\<rfloor>"
  using assms rest_range(1) [of s]
  by (simp add: py_mod_def Let_def fmod_nonneg)

lemma py_floordiv_small:
  assumes "0 \<le> s" and "s < 2 ^ 53"
  shows "py_floordiv s 60 = of_int \<lfloor>s / 60\<rfloor>"
proof -
  let ?q = "\<lfloor>s / 60\<rfloor>"
  let ?m = "fmod s 60"
  have m: "?m = s - 60 * of_int ?q" using assms(1) by (rule fmod_nonneg)
  have m0: "0 \<le> ?m" unfolding m by (rule rest_range)
  have q0: "0 \<le> ?q" using assms(1) by simp
  have "real_of_int (60 * ?q) \<le> s" using m m0 by simp
  with assms(2) have "real_of_int (60 * ?q) < 2 ^ 53" by linarith
  then have "real_of_int (60 * ?q) < real_of_int (2 ^ 53)"
    by (simp only: of_int_power of_int_numeral)
  then have big: "60 * ?q < 2 ^ 53" by (simp only: of_int_less_iff)
  from q0 big have b60: "\<bar>60 * ?q\<bar> < 2 ^ 53" by linarith
  from q0 big have bq: "\<bar>?q\<bar> < 2 ^ 53" by linarith
  have "s - ?m = of_int (60 * ?q)" unfolding m by simp
  then have r1: "round_double (s - ?m) = of_int (60 * ?q)"
    using round_double_of_int [OF b60] by simp
  have "round_double (s - ?m) / 60 = of_int ?q" unfolding r1 by simp
  then have d0: "round_double (round_double (s - ?m) / 60) = of_int ?q"
    using round_double_of_int [OF bq] by simp
  have no_adjust: "\<not> (?m \<noteq> 0 \<and> ((60 :: real) < 0) \<noteq> (?m < 0))"
    using m0 by simp
  have snap: "\<not> 1 / 2 < round_double (real_of_int ?q - of_int \<lfloor>real_of_int ?q\<rfloor>)"
    by (simp add: round_double_0)
  show ?thesis
    unfolding py_floordiv_def Let_def d0 using no_adjust snap by auto
qed

lemma minutes_of_small:
  assumes "0 \<le> s" and "s < 2 ^ 53"
  shows "py_int (py_floordiv s 60) = \<lfloor>s / 60\<rfloor>" and "0 \<le> \<lfloor>s / 60\<rfloor>"
proof -
  from assms(1) show "0 \<le> \<lfloor>s / 60\<rfloor>" by simp
  then show "py_int (py_floordiv s 60) = \<lfloor>s / 60\<rfloor>"
    by (simp add: py_int_def py_floordiv_small [OF assms])
qed

lemma seconds_of:
  assumes "0 \<le> s"
  shows "\<lfloor>py_mod s 60\<rfloor> = \<lfloor>s\<rfloor> mod 60" and "0 \<le> py_mod s 60"
    and "py_int (py_mod s 60) = \<lfloor>s\<rfloor> mod 60"
proof -
  have "py_mod s 60 = s - of_int (60 * \<lfloor>s / 60\<rfloor>)"
    using assms by (simp add: py_mod_nonneg)
  then have "\<lfloor>py_mod s 60\<rfloor> = \<lfloor>s\<rfloor> - 60 * \<lfloor>s / 60\<rfloor>"
    by (simp only: floor_diff_of_int)
  also have "\<dots> = \<lfloor>s\<rfloor> mod 60"
    by (simp add: floor_div_60 minus_mult_div_eq_mod)
  finally show fl: "\<lfloor>py_mod s 60\<rfloor> = \<lfloor>s\<rfloor> mod 60" .
  have "0 \<le> \<lfloor>py_mod s 60\<rfloor>" by (simp add: fl)
  then show nn: "0 \<le> py_mod s 60" by simp
  with fl show "py_int (py_mod s 60) = \<lfloor>s\<rfloor> mod 60"
    by (simp add: py_int_def)
qed

lemma format_time_delta_small:
  assumes "0 \<le> s" and "s < 2 ^ 53"
  shows "format_time_delta s =
           zfill 2 (decimal (nat \<lfloor>s / 60\<rfloor>)) @ '':'' @ zfill 2 (decimal (nat (\<lfloor>s\<rfloor> mod 60)))"
proof -
  have "\<not> \<lfloor>s\<rfloor> mod 60 < 0" by simp
  then show ?thesis
    using minutes_of_small [OF assms] seconds_of(3) [OF assms(1)]
    by (simp add: format_time_delta_def Let_def format_02d_def)
qed

lemma total_seconds_whole:
  assumes "\<bar>k\<bar> < 2 ^ 53"
  shows "total_seconds (1000000 * k) = of_int k"
  using round_double_of_int [OF assms] by (simp add: total_seconds_def)

section \<open>The debouncer: order of the offsets\<close>

lemma step_times_cases:
  "candidate_times (fst (step threshold st (l, t))) = candidate_times st \<or>
   candidate_times (fst (step threshold st (l, t))) = [] \<or>
   candidate_times (fst (step threshold st (l, t))) = candidate_times st @ [t] \<or>
   candidate_times (fst (step threshold st (l, t))) = [t]"
  by (auto simp: step_def Let_def split: option.splits)

lemma step_event_cases:
  "snd (step threshold st (l, t)) = [] \<or>
   (\<exists>name. snd (step threshold st (l, t)) = [(hd (candidate_times st @ [t]), name)] \<and>
      candidate_times (fst (step threshold st (l, t))) = candidate_times st @ [t])"
  by (auto simp: step_def Let_def split: option.splits)

lemma step_sorted_pre:
  assumes "sorted (candidate_times st @ t # ts)"
  shows "sorted (candidate_times (fst (step threshold st (l, t))) @ ts)"
proof -
  from assms have a: "sorted (candidate_times st @ ts)"
    by (auto simp: sorted_append)
  from assms have b: "sorted ts" by (auto simp: sorted_append)
  from assms have c: "sorted ((candidate_times st @ [t]) @ ts)" by simp
  from assms have d: "sorted ([t] @ ts)" by (auto simp: sorted_append)
  from step_times_cases [of threshold st l t] a b c d show ?thesis
    by (elim disjE) simp_all
qed

lemma debounce_values:
  "fst ` set (snd (debounce threshold st xs)) \<union> set (candidate_times (fst (debounce threshold st xs)))
     \<subseteq> set (candidate_times st) \<union> snd ` set xs"
proof (induction xs arbitrary: st)
  case Nil
  then show ?case by simp
next
  case (Cons x xs)
  obtain l t where x: "x = (l, t)" by (cases x)
  let ?st1 = "fst (step threshold st x)"
  have times1: "set (candidate_times ?st1) \<subseteq> insert t (set (candidate_times st))"
    using step_times_cases [of threshold st l t] unfolding x by auto
  have ev1: "fst ` set (snd (step threshold st x)) \<subseteq> insert t (set (candidate_times st))"
  proof -
    have "hd (candidate_times st @ [t]) \<in> set (candidate_times st @ [t])"
      by (rule hd_in_set) simp
    then show ?thesis
      using step_event_cases [of threshold st l t] unfolding x by auto
  qed
  from Cons.IH [of ?st1] times1 ev1 show ?case
    unfolding debounce_Cons_fst debounce_Cons_snd x by auto
qed

lemma debounce_sorted:
  assumes "sorted (candidate_times st @ map snd xs)"
  shows "sorted (map fst (snd (debounce threshold st xs)) @
                 candidate_times (fst (debounce threshold st xs)))"
  using assms
proof (induction xs arbitrary: st)
  case Nil
  then show ?case by simp
next
  case (Cons x xs)
  obtain l t where x: "x = (l, t)" by (cases x)
  let ?st1 = "fst (step threshold st x)"
  let ?rest = "debounce threshold ?st1 xs"
  from Cons.prems have pre: "sorted (candidate_times st @ t # map snd xs)"
    by (simp add: x)
  then have pre1: "sorted (candidate_times ?st1 @ map snd xs)"
    unfolding x by (rule step_sorted_pre)
  then have ih: "sorted (map fst (snd ?rest) @ candidate_times (fst ?rest))"
    by (rule Cons.IH)
  have vals: "fst ` set (snd ?rest) \<union> set (candidate_times (fst ?rest))
                \<subseteq> set (candidate_times ?st1) \<union> snd ` set xs"
    by (rule debounce_values)
  show ?case
  proof (cases "snd (step threshold st x) = []")
    case True
    with ih show ?thesis by (simp add: debounce_Cons_fst debounce_Cons_snd del: debounce.simps)
  next
    case False
    with step_event_cases [of threshold st l t] obtain name where
      ev: "snd (step threshold st x) = [(hd (candidate_times st @ [t]), name)]"
      and ts: "candidate_times ?st1 = candidate_times st @ [t]"
      unfolding x by blast
    have low: "hd (candidate_times st @ [t]) \<le> v"
      if "v \<in> set (candidate_times ?st1) \<union> snd ` set xs" for v
    proof -
      from pre1 ts have s: "sorted ((candidate_times st @ [t]) @ map snd xs)" by simp
      obtain h r where hr: "candidate_times st @ [t] = h # r"
        by (cases "candidate_times st @ [t]") auto
      from that ts have "v \<in> set ((candidate_times st @ [t]) @ map snd xs)" by auto
      with s hr show ?thesis by auto
    qed
    let ?L = "map fst (snd ?rest) @ candidate_times (fst ?rest)"
    have bound: "hd (candidate_times st @ [t]) \<le> v" if "v \<in> set ?L" for v
    proof -
      from that have "v \<in> fst ` set (snd ?rest) \<union> set (candidate_times (fst ?rest))"
        by simp
      with vals have "v \<in> set (candidate_times ?st1) \<union> snd ` set xs" by blast
      then show ?thesis by (rule low)
    qed
    have eq: "map fst (snd (debounce threshold st (x # xs))) @
              candidate_times (fst (debounce threshold st (x # xs)))
                = hd (candidate_times st @ [t]) # ?L"
      by (simp add: debounce_Cons_fst debounce_Cons_snd ev del: debounce.simps)
    have "sorted (hd (candidate_times st @ [t]) # ?L)"
      unfolding sorted_simps(2) using ih bound by blast
    then show ?thesis by (simp only: eq)
  qed
qed

lemma step_first_fixed:
  assumes "candidate_street st \<noteq> None"
    and "candidate_street (fst (step threshold st x)) = candidate_street st"
  shows "\<exists>ys. candidate_times (fst (step threshold st x)) = candidate_times st @ ys"
proof -
  obtain l t where x: "x = (l, t)" by (cases x)
  from assms(1) obtain n where n: "candidate_street st = Some n" by auto
  show ?thesis
  proof (cases "l = None \<or> l = Some []")
    case True
    then have "step threshold st x = (st, [])"
      unfolding x using step_None step_empty by auto
    then show ?thesis by simp
  next
    case False
    then obtain name where l: "l = Some name" and name: "name \<noteq> []" by auto
    show ?thesis
    proof (cases "l = confirmed_street st")
      case True
      with l name have "candidate_street (fst (step threshold st x)) = None"
        unfolding x by (simp add: step_def)
      with assms n show ?thesis by simp
    next
      case nc: False
      show ?thesis
      proof (cases "l = candidate_street st")
        case True
        with nc l name show ?thesis
          unfolding x by (simp add: step_def Let_def)
      next
        case False
        with nc l name have "candidate_street (fst (step threshold st x)) = l"
          unfolding x by (simp add: step_def)
        with assms(2) False show ?thesis by simp
      qed
    qed
  qed
qed

lemma retained_sorted:
  "sorted (map f ps) \<Longrightarrow> sorted (map f (retained downsample i ps))"
proof (induction ps arbitrary: i)
  case Nil
  then show ?case by simp
next
  case (Cons p ps)
  have sub: "set (retained downsample j ps) \<subseteq> set ps" for j
    by (induction ps arbitrary: j) auto
  from Cons.prems have "sorted (map f ps)" and "\<forall>q \<in> set ps. f p \<le> f q" by auto
  with Cons.IH [of "Suc i"] sub [of "Suc i"] show ?case by auto
qed

lemma retained_map: "retained downsample i (map h xs) = map h (retained downsample i xs)"
  by (induction xs arbitrary: i) simp_all

lemma processed_Inr: "processed (map Inr ys) = ys"
  by (induction ys) simp_all

lemma raised_Inr: "raised (map Inr ys) = None"
  by (induction ys) simp_all

lemma label_of_same_kind:
  assumes "K = Naive \<or> K = Aware"
  shows "label_of g None (la, lo, Some (K t)) = Inr (g la lo, 0)"
    and "label_of g (Some (K s)) (la, lo, Some (K t)) = Inr (g la lo, total_seconds (t - s))"
  using assms by (auto simp: label_of_def time_diff_of_def)

lemma offsets_of_chronological:
  fixes g :: "real \<Rightarrow> real \<Rightarrow> string option" and downsample :: int and i :: nat
  assumes K: "K = Naive \<or> K = Aware"
    and start: "start = None \<or> (\<exists>s. start = Some (K s))"
    and sorted: "sorted (map (\<lambda>p. snd (snd p)) tps)"
  defines "L \<equiv> map (label_of g start)
                  (retained downsample i
                     (map (\<lambda>p. (fst p, fst (snd p), Some (K (snd (snd p))))) tps))"
  shows "raised L = None" and "sorted (map snd (processed L))"
    and "length (processed L) = length (retained downsample i tps)"
proof -
  define off :: "int \<Rightarrow> real" where
    "off t = (case start of None \<Rightarrow> 0 | Some d \<Rightarrow>
                (case d of Naive s \<Rightarrow> total_seconds (t - s) | Aware s \<Rightarrow> total_seconds (t - s)))"
    for t
  define f :: "real \<times> real \<times> int \<Rightarrow> labelled" where
    "f p = (g (fst p) (fst (snd p)), off (snd (snd p)))" for p
  have lab: "label_of g start (fst p, fst (snd p), Some (K (snd (snd p)))) = Inr (f p)" for p
    using K start label_of_same_kind [OF K, of g]
    by (auto simp: f_def off_def)
  have L: "L = map Inr (map f (retained downsample i tps))"
    unfolding L_def by (simp add: retained_map lab)
  show "raised L = None" unfolding L by (rule raised_Inr)
  have mono: "off a \<le> off b" if "a \<le> b" for a b
    using that
    by (auto simp: off_def total_seconds_def divide_right_mono
        intro!: round_double_mono split: option.splits datetime.splits)
  from sorted have "sorted_wrt (\<lambda>a b. snd (snd a) \<le> snd (snd b)) tps"
    by (simp add: sorted_map)
  then have "sorted_wrt (\<lambda>a b. snd (f a) \<le> snd (f b)) tps"
    by (rule sorted_wrt_mono_rel [rotated]) (simp add: f_def mono)
  then have "sorted (map (\<lambda>p. snd (f p)) tps)"
    by (simp add: sorted_map)
  then have "sorted (map (\<lambda>p. snd (f p)) (retained downsample i tps))"
    by (rule retained_sorted)
  then show "sorted (map snd (processed L))"
    unfolding L processed_Inr by (simp add: comp_def)
  show "length (processed L) = length (retained downsample i tps)"
    unfolding L processed_Inr by simp
qed

lemma round_double_year_1000:
  "round_double (31556908800999999 / 1000000) = 31556908801"
  using round_double_small [of 18 "31556908800999999 / 1000000"]
  by (simp add: round_half_even_def)

lemma py_floordiv_2_70:
  "py_floordiv 1180591620717411303424 60 = 19676527011956854784"
  and py_mod_2_70: "py_mod 1180591620717411303424 60 = 4"
proof -
  have fm: "fmod 1180591620717411303424 60 = 4"
    by (simp add: fmod_def py_int_def)
  have r1: "round_double (1180591620717411303424 - 4) = 1180591620717411303424"
    using round_double_large [of 17 "1180591620717411303424 - 4"]
    by (simp add: round_half_even_def)
  have r2: "round_double (1180591620717411303424 / 60) = 19676527011956854784"
    using round_double_large [of 12 "1180591620717411303424 / 60"]
    by (simp add: round_half_even_def)
  show "py_floordiv 1180591620717411303424 60 = 19676527011956854784"
    unfolding py_floordiv_def Let_def fm r1 r2 by (simp add: round_double_0)
  show "py_mod 1180591620717411303424 60 = 4"
    unfolding py_mod_def Let_def fm by simp
qed

section \<open>The claims\<close>

text \<open>
  C7. \<open>collect_points\<close> returns all track points, in document order, when some track
  has a point; otherwise all route points, in document order, when some route has a
  point; otherwise the waypoints; and the empty list when all three sources are empty.
  Routes and waypoints play no part in the first case, waypoints none in the second. The
  function is total: no input makes it raise.
\<close>

theorem collect_points_priority:
  "collect_points g =
     (if track_points g \<noteq> [] then map as_tuple (track_points g)
      else if all_route_points g \<noteq> [] then map as_tuple (all_route_points g)
      else map as_tuple (waypoints g)) \<and>
   (track_points g = [] \<and> all_route_points g = [] \<and> waypoints g = []
      \<longrightarrow> collect_points g = [])"
proof -
  have tr: "append_tracks [] (tracks g) = map as_tuple (track_points g)"
    by (simp add: append_tracks_eq track_points_def)
  have ro: "append_routes [] (routes g) = map as_tuple (all_route_points g)"
    by (simp add: append_routes_eq all_route_points_def)
  have wp: "append_points [] (waypoints g) = map as_tuple (waypoints g)"
    by (simp add: append_points_eq)
  have t0: "tracks g = [] \<Longrightarrow> track_points g = []"
    by (simp add: track_points_def)
  have r0: "routes g = [] \<Longrightarrow> all_route_points g = []"
    by (simp add: all_route_points_def)
  show ?thesis
  proof (cases "track_points g = []")
    case False
    then have "tracks g \<noteq> []" using t0 by blast
    with False show ?thesis by (simp add: collect_points_def tr)
  next
    case tp: True
    show ?thesis
    proof (cases "all_route_points g = []")
      case False
      then have "routes g \<noteq> []" using r0 by blast
      with False tp show ?thesis by (simp add: collect_points_def tr ro)
    next
      case True
      with tp show ?thesis by (simp add: collect_points_def tr ro wp)
    qed
  qed
qed

theorem collect_points_priority_witness:
  "collect_points
     \<lparr>tracks = [\<lparr>segments = [\<lparr>seg_points = [\<lparr>latitude = 1, longitude = 2, time = Some (Aware 0)\<rparr>]\<rparr>,
                               \<lparr>seg_points = []\<rparr>]\<rparr>,
                \<lparr>segments = [\<lparr>seg_points = [\<lparr>latitude = 3, longitude = 4, time = None\<rparr>]\<rparr>]\<rparr>],
      routes = [\<lparr>route_points = [\<lparr>latitude = 5, longitude = 6, time = None\<rparr>]\<rparr>],
      waypoints = [\<lparr>latitude = 7, longitude = 8, time = None\<rparr>]\<rparr>
     = [(1, 2, Some (Aware 0)), (3, 4, None)] \<and>
   collect_points
     \<lparr>tracks = [\<lparr>segments = [\<lparr>seg_points = []\<rparr>]\<rparr>],
      routes = [\<lparr>route_points = [\<lparr>latitude = 5, longitude = 6, time = None\<rparr>]\<rparr>],
      waypoints = [\<lparr>latitude = 7, longitude = 8, time = None\<rparr>]\<rparr>
     = [(5, 6, None)] \<and>
   collect_points
     \<lparr>tracks = [], routes = [\<lparr>route_points = []\<rparr>],
      waypoints = [\<lparr>latitude = 7, longitude = 8, time = None\<rparr>]\<rparr>
     = [(7, 8, None)] \<and>
   collect_points \<lparr>tracks = [], routes = [], waypoints = []\<rparr> = []"
  using
    collect_points_priority
      [of "\<lparr>tracks = [\<lparr>segments = [\<lparr>seg_points = [\<lparr>latitude = 1, longitude = 2, time = Some (Aware 0)\<rparr>]\<rparr>,
                                     \<lparr>seg_points = []\<rparr>]\<rparr>,
                      \<lparr>segments = [\<lparr>seg_points = [\<lparr>latitude = 3, longitude = 4, time = None\<rparr>]\<rparr>]\<rparr>],
            routes = [\<lparr>route_points = [\<lparr>latitude = 5, longitude = 6, time = None\<rparr>]\<rparr>],
            waypoints = [\<lparr>latitude = 7, longitude = 8, time = None\<rparr>]\<rparr>"]
    collect_points_priority
      [of "\<lparr>tracks = [\<lparr>segments = [\<lparr>seg_points = []\<rparr>]\<rparr>],
            routes = [\<lparr>route_points = [\<lparr>latitude = 5, longitude = 6, time = None\<rparr>]\<rparr>],
            waypoints = [\<lparr>latitude = 7, longitude = 8, time = None\<rparr>]\<rparr>"]
    collect_points_priority
      [of "\<lparr>tracks = [], routes = [\<lparr>route_points = []\<rparr>],
            waypoints = [\<lparr>latitude = 7, longitude = 8, time = None\<rparr>]\<rparr>"]
    collect_points_priority [of "\<lparr>tracks = [], routes = [], waypoints = []\<rparr>"]
  by (simp add: track_points_def all_route_points_def as_tuple_def)

text \<open>
  C8. A retained point for which the classifier answers \<open>None\<close> changes none of the three
  variables and prints nothing; a live candidate survives it. Hence such an answer,
  wherever it stands in the stream, can be removed without changing the final state or
  the events.
\<close>

theorem null_label_skipped:
  "step threshold st (None, t) = (st, []) \<and>
   debounce threshold st (xs @ (None, t) # ys) = debounce threshold st (xs @ ys) \<and>
   debounce threshold st (filter (\<lambda>x. fst x \<noteq> None) xs) = debounce threshold st xs"
proof -
  have a: "step threshold st (None, t) = (st, [])"
    by (rule step_None)
  have b: "debounce threshold st (xs @ (None, t) # ys) = debounce threshold st (xs @ ys)"
    by (simp add: debounce_append step_None split: prod.splits)
  have c: "debounce threshold s (filter (\<lambda>x. fst x \<noteq> None) xs) = debounce threshold s xs" for s
  proof (induction xs arbitrary: s)
    case Nil
    then show ?case by simp
  next
    case (Cons x xs)
    then show ?case by (cases x) (auto simp: step_None)
  qed
  from a b c show ?thesis by blast
qed

theorem null_label_skipped_witness:
  "step 2 \<lparr>confirmed_street = Some ''A'', candidate_street = Some ''B'', candidate_times = [5]\<rparr>
     (None, 7)
     = (\<lparr>confirmed_street = Some ''A'', candidate_street = Some ''B'', candidate_times = [5]\<rparr>, []) \<and>
   debounce 2 initial ([(Some ''B'', 5)] @ (None, 7) # [(Some ''B'', 9)])
     = (\<lparr>confirmed_street = Some ''B'', candidate_street = Some ''B'', candidate_times = [5, 9]\<rparr>,
        [(5, ''B'')])"
  using
    null_label_skipped
      [of 2 "\<lparr>confirmed_street = Some ''A'', candidate_street = Some ''B'', candidate_times = [5]\<rparr>" 7]
    null_label_skipped [of 2 initial 7 "[(Some ''B'', 5)]" "[(Some ''B'', 9)]"]
  by (simp add: step_def initial_def)

text \<open>
  C10. A retained point for which the classifier answers the empty string is treated as
  one with the answer \<open>None\<close>: nothing changes and nothing is printed. So in a run the
  empty string is never the candidate, never the confirmed street and never in an event
  of the loop; and the code after the loop prints no event with an empty street from any
  state, since its guard tests the candidate for truth.
\<close>

theorem empty_label_skipped:
  "step threshold st (Some [], t) = (st, []) \<and>
   step threshold st (Some [], t) = step threshold st (None, t) \<and>
   debounce threshold st (filter (\<lambda>x. fst x \<noteq> Some []) xs) = debounce threshold st xs \<and>
   candidate_street (fst (debounce threshold initial xs)) \<noteq> Some [] \<and>
   confirmed_street (fst (debounce threshold initial xs)) \<noteq> Some [] \<and>
   (\<forall>e \<in> set (snd (debounce threshold initial xs)). snd e \<noteq> []) \<and>
   (candidate_street st = Some [] \<longrightarrow> finalize final_threshold st = Inr []) \<and>
   (\<forall>fin. finalize final_threshold st = Inr fin \<longrightarrow> (\<forall>e \<in> set fin. snd e \<noteq> []))"
proof -
  have a: "step threshold st (Some [], t) = (st, [])"
    by (rule step_empty)
  have b: "step threshold st (Some [], t) = step threshold st (None, t)"
    by (simp add: step_empty step_None)
  have c: "debounce threshold s (filter (\<lambda>x. fst x \<noteq> Some []) xs) = debounce threshold s xs" for s
  proof (induction xs arbitrary: s)
    case Nil
    then show ?case by simp
  next
    case (Cons x xs)
    then show ?case by (cases x) (auto simp: step_empty)
  qed
  have inv: "consistent (fst (debounce threshold initial xs))"
    using consistent_initial by (rule debounce_consistent)
  have d: "candidate_street (fst (debounce threshold initial xs)) \<noteq> Some []"
    using inv by (simp add: consistent_def)
  have e: "confirmed_street (fst (debounce threshold initial xs)) \<noteq> Some []"
    using inv by (simp add: consistent_def)
  have f: "\<forall>e \<in> set (snd (debounce threshold initial xs)). snd e \<noteq> []"
    using debounce_event_names by blast
  have g: "candidate_street st = Some [] \<longrightarrow> finalize final_threshold st = Inr []"
    by (simp add: finalize_def)
  have h: "\<forall>fin. finalize final_threshold st = Inr fin \<longrightarrow> (\<forall>e \<in> set fin. snd e \<noteq> [])"
    using finalize_event_names by blast
  from a b c d e f g h show ?thesis by blast
qed

theorem empty_label_skipped_witness:
  "step 1 \<lparr>confirmed_street = None, candidate_street = Some ''B'', candidate_times = [5]\<rparr>
     (Some [], 7)
     = (\<lparr>confirmed_street = None, candidate_street = Some ''B'', candidate_times = [5]\<rparr>, []) \<and>
   debounce 1 initial [(Some [], 1), (Some [], 2), (Some [], 3)] = (initial, []) \<and>
   finalize 1 \<lparr>confirmed_street = None, candidate_street = Some [], candidate_times = [1, 2]\<rparr>
     = Inr []"
  using
    empty_label_skipped
      [of 1 "\<lparr>confirmed_street = None, candidate_street = Some ''B'', candidate_times = [5]\<rparr>" 7]
    empty_label_skipped
      [of 1 "\<lparr>confirmed_street = None, candidate_street = Some [], candidate_times = [1, 2]\<rparr>"
          0 "[]" 1]
    empty_label_skipped [of 1 initial 0 "[(Some [], 1), (Some [], 2), (Some [], 3)]"]
  by simp

text \<open>
  C5. From the initial state and with threshold 3, the answers \<open>A, A, B, A, A, A, A\<close>
  (two distinct non-empty streets, any offsets) make the loop print exactly one event:
  street \<open>A\<close> at the offset of the fourth answer. Nothing is printed for \<open>B\<close>, and the
  code after the loop prints nothing, whatever the final threshold.
\<close>

theorem noise_rejection:
  assumes "A \<noteq> []" and "B \<noteq> []" and "A \<noteq> B"
  shows
    "debounce 3 initial
       [(Some A, t1), (Some A, t2), (Some B, t3), (Some A, t4), (Some A, t5), (Some A, t6),
        (Some A, t7)]
       = (\<lparr>confirmed_street = Some A, candidate_street = None, candidate_times = []\<rparr>,
          [(t4, A)]) \<and>
     finalize final_threshold
       \<lparr>confirmed_street = Some A, candidate_street = None, candidate_times = []\<rparr> = Inr []"
  using assms by (simp add: step_def initial_def finalize_def)

theorem noise_rejection_witness:
  "debounce 3 initial
     [(Some ''Main St'', 0), (Some ''Main St'', 10), (Some ''Oak Ave'', 20),
      (Some ''Main St'', 30), (Some ''Main St'', 40), (Some ''Main St'', 50),
      (Some ''Main St'', 60)]
     = (\<lparr>confirmed_street = Some ''Main St'', candidate_street = None, candidate_times = []\<rparr>,
        [(30, ''Main St'')]) \<and>
   finalize 2
     \<lparr>confirmed_street = Some ''Main St'', candidate_street = None, candidate_times = []\<rparr>
     = Inr []"
  using noise_rejection [of "''Main St''" "''Oak Ave''" 0 10 20 30 40 50 60 2] by simp

text \<open>
  C2, as the code has it. With \<open>A\<close> confirmed and threshold 2, the answers \<open>B, B, A\<close> do
  confirm \<open>B\<close>: the second \<open>B\<close> is the second hit of the candidate, which reaches the
  threshold before the third answer is looked at. The same happens in a run from the
  initial state in which \<open>A\<close> has been confirmed first.
\<close>

theorem return_to_known_street_counterexample:
  "snd (debounce 2
          \<lparr>confirmed_street = Some ''A'', candidate_street = None, candidate_times = []\<rparr>
          [(Some ''B'', 10), (Some ''B'', 20), (Some ''A'', 30)])
     = [(10, ''B'')] \<and>
   snd (debounce 2 initial
          [(Some ''A'', 0), (Some ''A'', 5), (Some ''B'', 10), (Some ''B'', 20), (Some ''A'', 30)])
     = [(0, ''A''), (10, ''B'')]"
  by (simp add: step_def initial_def)

text \<open>
  C2, amended. With \<open>A\<close> confirmed, a candidate that is not \<open>B\<close> and a threshold of 3 or
  more, the answers \<open>B, B, A\<close> print nothing: the third answer, equal to the confirmed
  street, clears the candidate \<open>B\<close> before it has reached the threshold, and the code
  after the loop finds no candidate.
\<close>

theorem return_to_known_street:
  assumes "3 \<le> threshold" and "A \<noteq> []" and "B \<noteq> []" and "A \<noteq> B"
    and "confirmed_street st = Some A" and "candidate_street st \<noteq> Some B"
  shows
    "debounce threshold st [(Some B, t1), (Some B, t2), (Some A, t3)]
       = (st\<lparr>candidate_street := None, candidate_times := []\<rparr>, []) \<and>
     finalize final_threshold (st\<lparr>candidate_street := None, candidate_times := []\<rparr>) = Inr []"
  using assms by (simp add: step_def finalize_def)

theorem return_to_known_street_witness:
  "debounce 3
     \<lparr>confirmed_street = Some ''A'', candidate_street = None, candidate_times = []\<rparr>
     [(Some ''B'', 10), (Some ''B'', 20), (Some ''A'', 30)]
     = (\<lparr>confirmed_street = Some ''A'', candidate_street = None, candidate_times = []\<rparr>, []) \<and>
   debounce 3
     \<lparr>confirmed_street = Some ''A'', candidate_street = Some ''A'', candidate_times = [0, 1, 2]\<rparr>
     [(Some ''B'', 10), (Some ''B'', 20), (Some ''A'', 30)]
     = (\<lparr>confirmed_street = Some ''A'', candidate_street = None, candidate_times = []\<rparr>, []) \<and>
   finalize 2
     \<lparr>confirmed_street = Some ''A'', candidate_street = None, candidate_times = []\<rparr> = Inr []"
  using
    return_to_known_street
      [of 3 "''A''" "''B''"
          "\<lparr>confirmed_street = Some ''A'', candidate_street = None, candidate_times = []\<rparr>"
          10 20 30 2]
    return_to_known_street
      [of 3 "''A''" "''B''"
          "\<lparr>confirmed_street = Some ''A'', candidate_street = Some ''A'',
            candidate_times = [0, 1, 2]\<rparr>"
          10 20 30 2]
  by simp

text \<open>
  C1, as the code has it. The confirming iteration does not clear the candidate: after
  two answers \<open>A\<close> with threshold 2 the event is printed and the candidate is still \<open>A\<close>
  with both hits. And an answer equal to the candidate's name is not always appended:
  the third \<open>A\<close>, equal to the confirmed street as well, clears the candidate.
\<close>

theorem confirming_step_counterexample:
  "debounce 2 initial [(Some ''A'', 0), (Some ''A'', 10)]
     = (\<lparr>confirmed_street = Some ''A'', candidate_street = Some ''A'', candidate_times = [0, 10]\<rparr>,
        [(0, ''A'')]) \<and>
   step 2 \<lparr>confirmed_street = Some ''A'', candidate_street = Some ''A'', candidate_times = [0, 10]\<rparr>
     (Some ''A'', 20)
     = (\<lparr>confirmed_street = Some ''A'', candidate_street = None, candidate_times = []\<rparr>, [])"
  by (simp add: step_def initial_def)

text \<open>
  C1, amended. For an answer \<open>L\<close>, not empty, equal to the candidate's name and different
  from the confirmed street, the iteration appends the offset to the hit list. If the
  list then has at least \<open>threshold\<close> elements, it prints exactly one event, whose
  offset is the first element of the hit list (the first hit when the list was not
  empty before), and sets the confirmed street to \<open>L\<close>; the candidate keeps its name and
  the extended hit list. Otherwise nothing is printed and the confirmed street stays.
  A kept candidate has the name of the confirmed street: the next answer \<open>L\<close> clears it
  and the code after the loop prints nothing for it.
\<close>

theorem confirming_step:
  assumes "candidate_street st = Some L" and "L \<noteq> []" and "confirmed_street st \<noteq> Some L"
  shows
    "step threshold st (Some L, T) =
       (if threshold \<le> int (length (candidate_times st)) + 1 then
          (st\<lparr>candidate_times := candidate_times st @ [T], confirmed_street := Some L\<rparr>,
           [(hd (candidate_times st @ [T]), L)])
        else (st\<lparr>candidate_times := candidate_times st @ [T]\<rparr>, [])) \<and>
     (candidate_times st \<noteq> [] \<longrightarrow> hd (candidate_times st @ [T]) = hd (candidate_times st)) \<and>
     step threshold (st\<lparr>candidate_times := candidate_times st @ [T], confirmed_street := Some L\<rparr>)
       (Some L, T')
       = (st\<lparr>candidate_street := None, candidate_times := [], confirmed_street := Some L\<rparr>, []) \<and>
     finalize final_threshold
       (st\<lparr>candidate_times := candidate_times st @ [T], confirmed_street := Some L\<rparr>) = Inr []"
  using assms by (simp add: step_def finalize_def Let_def)

theorem confirming_step_witness:
  "step 3 \<lparr>confirmed_street = Some ''A'', candidate_street = Some ''B'', candidate_times = [10, 20]\<rparr>
     (Some ''B'', 30)
     = (\<lparr>confirmed_street = Some ''B'', candidate_street = Some ''B'',
         candidate_times = [10, 20, 30]\<rparr>, [(10, ''B'')]) \<and>
   step 4 \<lparr>confirmed_street = Some ''A'', candidate_street = Some ''B'', candidate_times = [10, 20]\<rparr>
     (Some ''B'', 30)
     = (\<lparr>confirmed_street = Some ''A'', candidate_street = Some ''B'',
         candidate_times = [10, 20, 30]\<rparr>, [])"
  using
    confirming_step
      [of "\<lparr>confirmed_street = Some ''A'', candidate_street = Some ''B'', candidate_times = [10, 20]\<rparr>"
          "''B''" 3 30 40 2]
    confirming_step
      [of "\<lparr>confirmed_street = Some ''A'', candidate_street = Some ''B'', candidate_times = [10, 20]\<rparr>"
          "''B''" 4 30 40 2]
  by simp

text \<open>
  C3. After the last retained point of a run: when there is a candidate, its name is not
  the confirmed street and it has at least \<open>final_threshold\<close> hits, the code after the
  loop prints exactly one event, the candidate's name at the first element of its hit
  list; when the candidate has fewer hits, when there is no candidate, or when the
  candidate is the confirmed street, it prints nothing. It never raises.
\<close>

theorem finalization:
  assumes "st = fst (debounce threshold initial xs)"
  shows
    "(candidate_street st = Some n \<and> confirmed_street st \<noteq> Some n \<and>
      final_threshold \<le> int (length (candidate_times st))
        \<longrightarrow> (\<exists>t0 ts. candidate_times st = t0 # ts \<and>
                      finalize final_threshold st = Inr [(t0, n)])) \<and>
     (int (length (candidate_times st)) < final_threshold
        \<longrightarrow> finalize final_threshold st = Inr []) \<and>
     (candidate_street st = None \<or> candidate_street st = confirmed_street st
        \<longrightarrow> finalize final_threshold st = Inr []) \<and>
     (\<exists>fin. finalize final_threshold st = Inr fin \<and> length fin \<le> 1)"
proof -
  have inv: "consistent st"
    unfolding assms using consistent_initial by (rule debounce_consistent)
  have a: "\<exists>t0 ts. candidate_times st = t0 # ts \<and> finalize final_threshold st = Inr [(t0, n)]"
    if "candidate_street st = Some n" and "confirmed_street st \<noteq> Some n"
      and "final_threshold \<le> int (length (candidate_times st))"
  proof -
    from inv that(1) have "candidate_times st \<noteq> []" and "n \<noteq> []"
      by (auto simp: consistent_def)
    then obtain t0 ts where ts: "candidate_times st = t0 # ts"
      by (cases "candidate_times st") auto
    with that \<open>n \<noteq> []\<close> have "finalize final_threshold st = Inr [(t0, n)]"
      by (simp add: finalize_def)
    with ts show ?thesis by blast
  qed
  have b: "finalize final_threshold st = Inr []"
    if "int (length (candidate_times st)) < final_threshold"
    using that by (simp add: finalize_def split: option.splits)
  have c: "finalize final_threshold st = Inr []"
    if "candidate_street st = None \<or> candidate_street st = confirmed_street st"
    using that by (auto simp: finalize_def split: option.splits)
  have d: "\<exists>fin. finalize final_threshold st = Inr fin \<and> length fin \<le> 1"
    using inv by (auto simp: finalize_def consistent_def split: option.splits list.splits)
  from a b c d show ?thesis by blast
qed

theorem finalization_witness:
  "finalize 2
     (fst (debounce 3 initial
        [(Some ''A'', 0), (Some ''A'', 10), (Some ''A'', 20), (Some ''B'', 30), (Some ''B'', 40)]))
     = Inr [(30, ''B'')] \<and>
   finalize 2
     (fst (debounce 3 initial
        [(Some ''A'', 0), (Some ''A'', 10), (Some ''A'', 20), (Some ''B'', 30)]))
     = Inr []"
  using
    finalization
      [of "fst (debounce 3 initial
             [(Some ''A'', 0), (Some ''A'', 10), (Some ''A'', 20), (Some ''B'', 30),
              (Some ''B'', 40)])"
          3
          "[(Some ''A'', 0), (Some ''A'', 10), (Some ''A'', 20), (Some ''B'', 30),
            (Some ''B'', 40)]"
          "''B''" 2]
    finalization
      [of "fst (debounce 3 initial
             [(Some ''A'', 0), (Some ''A'', 10), (Some ''A'', 20), (Some ''B'', 30)])"
          3
          "[(Some ''A'', 0), (Some ''A'', 10), (Some ''A'', 20), (Some ''B'', 30)]"
          "''B''" 2]
  by (simp add: step_def initial_def)

text \<open>
  C6, as the code has it. When both times are present the offset is not always defined:
  with an aware start time and a naive time on a retained point, the subtraction raises
  \<open>TypeError\<close> and the run stops at that point.
\<close>

theorem start_time_and_offsets_counterexample:
  "find_start_time [(0, 0, Some (Aware 0)), (0, 0, Some (Naive 10000000))] = Some (Aware 0) \<and>
   time_diff_of (Some (Aware 0)) (Some (Naive 10000000)) = Inl TypeError \<and>
   process_points (\<lambda>la lo. Some ''A'')
     [(0, 0, Some (Aware 0)), (0, 0, Some (Naive 10000000))] 1 2 2
     = ([], Some TypeError)"
  by (simp add: process_points_def time_diff_of_def total_seconds_def round_double_0
      step_def initial_def)

text \<open>
  C6, amended. The start time of a run is the time of the first point of the whole list
  that has one, whether or not that point is retained by the downsampling, and \<open>None\<close>
  when no point has a time. A run with a non-zero stride is the debouncer applied to the
  points at the indices that are multiples of the stride, each with the classifier's
  answer and its offset against that one start time, up to the first point whose offset
  raises. The offset is the difference of the two times in seconds, rounded to a double
  (so within a relative error of \<open>2^-53\<close>, and exact for whole seconds), when the point
  has a time and it is naive or aware as the start time is; it is 0 when the point has
  no time or when there is no start time; and it raises \<open>TypeError\<close> when one of the two
  times is naive and the other aware. So when no point has a time, every offset is 0.
\<close>

theorem start_time_and_offsets:
  "((\<forall>p \<in> set pre. snd (snd p) = None)
      \<longrightarrow> find_start_time (pre @ (lat, lon, Some t) # post) = Some t) \<and>
   ((\<forall>p \<in> set points. snd (snd p) = None)
      \<longrightarrow> find_start_time points = None \<and>
          map (label_of g (find_start_time points)) (retained downsample 0 points)
            = map (\<lambda>p. Inr (g (fst p) (fst (snd p)), 0)) (retained downsample 0 points)) \<and>
   (points \<noteq> [] \<and> downsample \<noteq> 0
      \<longrightarrow> process_points g points downsample threshold final_threshold =
            (let answers = map (label_of g (find_start_time points))
                             (retained downsample 0 points);
                 run = debounce threshold initial (processed answers)
             in case raised answers of
                  Some e \<Rightarrow> (map print_event (snd run), Some e)
                | None \<Rightarrow>
                    (case finalize final_threshold (fst run) of
                       Inl e \<Rightarrow> (map print_event (snd run), Some e)
                     | Inr fin \<Rightarrow> (map print_event (snd run @ fin), None)))) \<and>
   retained downsample 0 points =
     map (nth points) (filter (\<lambda>k. int k mod downsample = 0) [0..<length points]) \<and>
   (K = Naive \<or> K = Aware
      \<longrightarrow> label_of g (Some (K s)) (la, lo, Some (K u))
            = Inr (g la lo, round_double (real_of_int (u - s) / 1000000))) \<and>
   label_of g (Some (Naive s)) (la, lo, Some (Aware u)) = Inl TypeError \<and>
   label_of g (Some (Aware s)) (la, lo, Some (Naive u)) = Inl TypeError \<and>
   label_of g None (la, lo, pt) = Inr (g la lo, 0) \<and>
   label_of g start (la, lo, None) = Inr (g la lo, 0) \<and>
   (\<bar>k\<bar> < 2 ^ 53 \<longrightarrow> round_double (real_of_int (1000000 * k) / 1000000) = of_int k) \<and>
   \<bar>round_double x - x\<bar> \<le> \<bar>x\<bar> / 2 ^ 53"
proof -
  have a: "(\<forall>p \<in> set pre. snd (snd p) = None)
             \<longrightarrow> find_start_time (pre @ (lat, lon, Some t) # post) = Some t"
    using find_start_time_first by blast
  have b: "find_start_time points = None \<and>
           map (label_of g (find_start_time points)) (retained downsample 0 points)
             = map (\<lambda>p. Inr (g (fst p) (fst (snd p)), 0)) (retained downsample 0 points)"
    if none: "\<forall>p \<in> set points. snd (snd p) = None"
  proof -
    from none have st: "find_start_time points = None"
      by (rule find_start_time_none)
    have "label_of g None p = Inr (g (fst p) (fst (snd p)), 0)" for p
      by (cases p) (simp add: label_of_def time_diff_of_def)
    with st show ?thesis by simp
  qed
  have c: "process_points g points downsample threshold final_threshold =
            (let answers = map (label_of g (find_start_time points))
                             (retained downsample 0 points);
                 run = debounce threshold initial (processed answers)
             in case raised answers of
                  Some e \<Rightarrow> (map print_event (snd run), Some e)
                | None \<Rightarrow>
                    (case finalize final_threshold (fst run) of
                       Inl e \<Rightarrow> (map print_event (snd run), Some e)
                     | Inr fin \<Rightarrow> (map print_event (snd run @ fin), None)))"
    if "points \<noteq> [] \<and> downsample \<noteq> 0"
    using that
    by (simp add: process_points_def loop_debounce Let_def case_prod_beta
        split: option.splits sum.splits)
  have d: "retained downsample 0 points =
             map (nth points) (filter (\<lambda>k. int k mod downsample = 0) [0..<length points])"
    using retained_indices [of downsample 0 points] by simp
  have e: "label_of g (Some (K s)) (la, lo, Some (K u))
             = Inr (g la lo, round_double (real_of_int (u - s) / 1000000))"
    if "K = Naive \<or> K = Aware"
    using label_of_same_kind(2) [OF that] by (simp add: total_seconds_def)
  have f1: "label_of g (Some (Naive s)) (la, lo, Some (Aware u)) = Inl TypeError"
    by (simp add: label_of_def time_diff_of_def)
  have f2: "label_of g (Some (Aware s)) (la, lo, Some (Naive u)) = Inl TypeError"
    by (simp add: label_of_def time_diff_of_def)
  have f: "label_of g None (la, lo, pt) = Inr (g la lo, 0)"
    by (simp add: label_of_def time_diff_of_def)
  have h: "label_of g start (la, lo, None) = Inr (g la lo, 0)"
    by (simp add: label_of_def time_diff_of_def split: option.splits)
  have i: "round_double (real_of_int (1000000 * k) / 1000000) = of_int k" if "\<bar>k\<bar> < 2 ^ 53"
    using total_seconds_whole [OF that] by (simp only: total_seconds_def)
  have j: "\<bar>round_double x - x\<bar> \<le> \<bar>x\<bar> / 2 ^ 53"
    by (rule round_double_error)
  from a b c d e f1 f2 f h i j show ?thesis by blast
qed

theorem start_time_and_offsets_witness:
  "find_start_time
     ([(0, 0, None)] @ (1, 1, Some (Aware 5000000)) #
        [(2, 2, Some (Aware 7000000)), (3, 3, Some (Aware 9500000)), (4, 4, None)])
     = Some (Aware 5000000) \<and>
   process_points (\<lambda>la lo. Some ''A'')
     [(0, 0, None), (1, 1, Some (Aware 5000000)), (2, 2, Some (Aware 7000000)),
      (3, 3, Some (Aware 9500000)), (4, 4, None)] 2 2 2
     = ([''00:00 A''], None) \<and>
   find_start_time [(0, 0, None), (1, 1, None)] = None \<and>
   map (label_of (\<lambda>la lo. Some ''A'') (find_start_time [(0, 0, None), (1, 1, None)]))
     (retained 1 0 [(0, 0, None), (1, 1, None)])
     = [Inr (Some ''A'', 0), Inr (Some ''A'', 0)] \<and>
   label_of (\<lambda>la lo. Some ''A'') (Some (Aware 5000000)) (2, 2, Some (Aware 7000000))
     = Inr (Some ''A'', 2) \<and>
   label_of (\<lambda>la lo. Some ''A'') (Some (Naive 0)) (2, 2, Some (Naive 31556908800999999))
     = Inr (Some ''A'', 31556908801)"
  using
    start_time_and_offsets
      [where pre = "[(0, 0, None)]" and lat = 1 and lon = 1 and t = "Aware 5000000"
         and post = "[(2, 2, Some (Aware 7000000)), (3, 3, Some (Aware 9500000)), (4, 4, None)]"
         and points = "[(0, 0, None), (1, 1, Some (Aware 5000000)), (2, 2, Some (Aware 7000000)),
                        (3, 3, Some (Aware 9500000)), (4, 4, None)]"
         and g = "\<lambda>la lo. Some ''A''" and downsample = 2 and threshold = 2
         and final_threshold = 2 and K = Aware and s = 5000000 and la = 2 and lo = 2
         and u = 7000000 and k = 2 and x = 0 and pt = None and start = None]
    start_time_and_offsets
      [where pre = "[]" and lat = 0 and lon = 0 and t = "Aware 0" and post = "[]"
         and points = "[(0, 0, None), (1, 1, None)]"
         and g = "\<lambda>la lo. Some ''A''" and downsample = 1 and threshold = 2
         and final_threshold = 2 and K = Naive and s = 0 and la = 2 and lo = 2
         and u = 31556908800999999 and k = 0 and x = 0 and pt = None and start = None]
  by (simp add: label_of_def time_diff_of_def round_double_year_1000 round_double_0
      step_def initial_def finalize_def print_event_def format_time_delta_small zfill_def
      decimal.simps digit_char_def)

text \<open>
  C9, as the code has it. The quotient of \<open>//\<close> is a double. For the offset \<open>2^70\<close>
  the difference \<open>2^70 - 4\<close> and the quotient by 60 are both rounded, and the minutes
  printed are 19676527011956854784, where \<open>\<lfloor>2^70 / 60\<rfloor>\<close> is 19676527011956855057.
\<close>

theorem format_time_delta_minutes_seconds_counterexample:
  "format_time_delta 1180591620717411303424 = ''19676527011956854784:04'' \<and>
   (1180591620717411303424 :: real) = 2 ^ 70 \<and>
   \<lfloor>1180591620717411303424 / 60 :: real\<rfloor> = 19676527011956855057 \<and>
   py_int (py_floordiv 1180591620717411303424 60) = 19676527011956854784"
  by (simp add: format_time_delta_def Let_def py_floordiv_2_70 py_mod_2_70 py_int_def
      format_02d_def zfill_def decimal.simps digit_char_def)

text \<open>
  C9, amended. For an offset that is not negative and is below \<open>2^53\<close> seconds (every
  difference of two datetimes is), the printed string is the decimal of
  \<open>\<lfloor>offset / 60\<rfloor>\<close>, padded with zeros to two digits, a colon, and the decimal of
  \<open>\<lfloor>offset mod 60\<rfloor>\<close>, padded likewise. The second field is \<open>\<lfloor>offset\<rfloor> mod 60\<close> and
  has exactly two digits. The first field has at least two digits, there is no field for
  hours and the minutes are not reduced: from 3600 seconds on the first field is the
  plain decimal of a number that is at least 60. An offset of 3700 seconds prints as
  \<open>61:40\<close>.
\<close>

theorem format_time_delta_minutes_seconds:
  assumes "0 \<le> s" and "s < 2 ^ 53"
  shows
    "format_time_delta s =
       zfill 2 (decimal (nat \<lfloor>s / 60\<rfloor>)) @ '':'' @ zfill 2 (decimal (nat \<lfloor>py_mod s 60\<rfloor>)) \<and>
     py_int (py_floordiv s 60) = \<lfloor>s / 60\<rfloor> \<and>
     py_mod s 60 = s - 60 * of_int \<lfloor>s / 60\<rfloor> \<and>
     \<lfloor>py_mod s 60\<rfloor> = \<lfloor>s\<rfloor> mod 60 \<and>
     zfill 2 (decimal (nat \<lfloor>py_mod s 60\<rfloor>)) =
       [digit_char (nat (\<lfloor>s\<rfloor> mod 60) div 10), digit_char (nat (\<lfloor>s\<rfloor> mod 60) mod 10)] \<and>
     2 \<le> length (zfill 2 (decimal (nat \<lfloor>s / 60\<rfloor>))) \<and>
     (3600 \<le> s \<longrightarrow>
        60 \<le> \<lfloor>s / 60\<rfloor> \<and> zfill 2 (decimal (nat \<lfloor>s / 60\<rfloor>)) = decimal (nat \<lfloor>s / 60\<rfloor>)) \<and>
     format_time_delta 3700 = ''61:40''"
proof -
  have mm: "py_int (py_floordiv s 60) = \<lfloor>s / 60\<rfloor>"
    using assms by (rule minutes_of_small)
  have fl: "\<lfloor>py_mod s 60\<rfloor> = \<lfloor>s\<rfloor> mod 60"
    using assms(1) by (rule seconds_of)
  have a: "format_time_delta s =
       zfill 2 (decimal (nat \<lfloor>s / 60\<rfloor>)) @ '':'' @ zfill 2 (decimal (nat \<lfloor>py_mod s 60\<rfloor>))"
    unfolding fl using assms by (rule format_time_delta_small)
  have b: "py_mod s 60 = s - 60 * of_int \<lfloor>s / 60\<rfloor>"
    using assms(1) by (rule py_mod_nonneg)
  have "nat (\<lfloor>s\<rfloor> mod 60) < 100"
    by (simp add: nat_less_iff order_less_trans [of "\<lfloor>s\<rfloor> mod 60" 60 100])
  then have d: "zfill 2 (decimal (nat \<lfloor>py_mod s 60\<rfloor>)) =
       [digit_char (nat (\<lfloor>s\<rfloor> mod 60) div 10), digit_char (nat (\<lfloor>s\<rfloor> mod 60) mod 10)]"
    unfolding fl by (rule two_digits)
  have e: "2 \<le> length (zfill 2 (decimal (nat \<lfloor>s / 60\<rfloor>)))"
    by (simp add: length_zfill)
  have f: "60 \<le> \<lfloor>s / 60\<rfloor> \<and> zfill 2 (decimal (nat \<lfloor>s / 60\<rfloor>)) = decimal (nat \<lfloor>s / 60\<rfloor>)"
    if "3600 \<le> s"
  proof -
    from that have "60 \<le> s / 60" by simp
    then have m: "60 \<le> \<lfloor>s / 60\<rfloor>" by (simp add: le_floor_iff)
    then have "10 \<le> nat \<lfloor>s / 60\<rfloor>" by linarith
    then have "zfill 2 (decimal (nat \<lfloor>s / 60\<rfloor>)) = decimal (nat \<lfloor>s / 60\<rfloor>)"
      by (rule digits_of_minutes)
    with m show ?thesis by blast
  qed
  have g: "format_time_delta 3700 = ''61:40''"
    by (simp add: format_time_delta_small zfill_def decimal.simps digit_char_def)
  from a mm b fl d e f g show ?thesis by blast
qed

theorem format_time_delta_minutes_seconds_witness:
  "format_time_delta (251 / 2) = ''02:05'' \<and> format_time_delta 7325 = ''122:05'' \<and>
   format_time_delta 0 = ''00:00'' \<and> format_time_delta 9007199254740991 = ''150119987579016:31''"
  using
    format_time_delta_minutes_seconds [of "251 / 2"]
    format_time_delta_minutes_seconds [of 7325]
    format_time_delta_minutes_seconds [of 0]
    format_time_delta_minutes_seconds [of 9007199254740991]
  by (simp add: zfill_def decimal.simps digit_char_def)

text \<open>
  C4, as the code has it. A point without a time gets the offset 0 wherever it stands.
  With the times 0 s, 10 s and none, one street and threshold 5, the hit list of the
  live candidate is \<open>[0, 10, 0]\<close>, which is not in order. With threshold 2, a street
  confirmed at 100 s is followed by one confirmed on two points without a time, and the
  two lines are printed with the offsets 100 and 0.
\<close>

theorem hit_times_sorted_counterexample:
  "candidate_times
     (fst (debounce 5 initial
        (processed
           (map (label_of (\<lambda>la lo. Some ''A'')
                   (find_start_time
                      [(0, 0, Some (Aware 0)), (0, 0, Some (Aware 10000000)), (0, 0, None)]))
              (retained 1 0
                 [(0, 0, Some (Aware 0)), (0, 0, Some (Aware 10000000)), (0, 0, None)])))))
     = [0, 10, 0] \<and>
   \<not> sorted [0, 10, 0 :: real] \<and>
   snd (debounce 2 initial
      (processed
         (map (label_of (\<lambda>la lo. if la = 0 then Some ''A'' else Some ''B'')
                 (find_start_time
                    [(1, 0, Some (Aware 0)), (0, 0, Some (Aware 100000000)),
                     (0, 0, Some (Aware 110000000)), (1, 0, None), (1, 0, None)]))
            (retained 1 0
               [(1, 0, Some (Aware 0)), (0, 0, Some (Aware 100000000)),
                (0, 0, Some (Aware 110000000)), (1, 0, None), (1, 0, None)]))))
     = [(100, ''A''), (0, ''B'')] \<and>
   process_points (\<lambda>la lo. if la = 0 then Some ''A'' else Some ''B'')
     [(1, 0, Some (Aware 0)), (0, 0, Some (Aware 100000000)), (0, 0, Some (Aware 110000000)),
      (1, 0, None), (1, 0, None)] 1 2 2
     = ([''01:40 A'', ''00:00 B''], None)"
  using total_seconds_whole [of 0] total_seconds_whole [of 10] total_seconds_whole [of 100]
    total_seconds_whole [of 110]
  by (simp add: process_points_def label_of_def time_diff_of_def step_def initial_def
      finalize_def print_event_def format_time_delta_small zfill_def decimal.simps
      digit_char_def)

text \<open>
  C4, amended. When the offsets of the retained points are in non-decreasing order, the
  hit list of the candidate is in non-decreasing order after every prefix of the run, and
  the events of the run, the one printed after the loop included, are in non-decreasing
  order of their offsets. The offsets are in that order whenever every point has a time,
  the times are all naive or all aware, and they are in non-decreasing order; no
  retained point raises then. Whatever the offsets, an iteration that keeps the
  candidate's name only appends to its hit list, so the first element stays.
\<close>

theorem hit_times_sorted:
  assumes "sorted (map snd xs)"
  shows
    "sorted (candidate_times (fst (debounce threshold initial (take k xs)))) \<and>
     (\<forall>fin. finalize final_threshold (fst (debounce threshold initial xs)) = Inr fin
        \<longrightarrow> sorted (map fst (snd (debounce threshold initial xs) @ fin))) \<and>
     (candidate_street st \<noteq> None \<and>
      candidate_street (fst (step threshold st x)) = candidate_street st
        \<longrightarrow> (\<exists>ys. candidate_times (fst (step threshold st x)) = candidate_times st @ ys) \<and>
            (candidate_times st \<noteq> []
               \<longrightarrow> hd (candidate_times (fst (step threshold st x))) = hd (candidate_times st))) \<and>
     ((K = Naive \<or> K = Aware) \<and> (start = None \<or> (\<exists>s. start = Some (K s))) \<and>
      sorted (map (\<lambda>p. snd (snd p)) tps)
        \<longrightarrow> raised (map (label_of g start)
                      (retained downsample 0
                         (map (\<lambda>p. (fst p, fst (snd p), Some (K (snd (snd p))))) tps))) = None \<and>
            length (processed (map (label_of g start)
                      (retained downsample 0
                         (map (\<lambda>p. (fst p, fst (snd p), Some (K (snd (snd p))))) tps))))
              = length (retained downsample 0 tps) \<and>
            sorted (map snd
              (processed (map (label_of g start)
                 (retained downsample 0
                    (map (\<lambda>p. (fst p, fst (snd p), Some (K (snd (snd p))))) tps))))))"
proof -
  have pre: "sorted (candidate_times initial @ map snd ys)" if "sorted (map snd ys)" for ys
    using that by (simp add: initial_def)
  have "sorted (map snd (take k xs))"
    using assms by (simp add: take_map [symmetric] sorted_wrt_take)
  then have "sorted (map fst (snd (debounce threshold initial (take k xs))) @
                     candidate_times (fst (debounce threshold initial (take k xs))))"
    by (intro debounce_sorted pre)
  then have a: "sorted (candidate_times (fst (debounce threshold initial (take k xs))))"
    by (simp add: sorted_append)
  have all: "sorted (map fst (snd (debounce threshold initial xs)) @
                     candidate_times (fst (debounce threshold initial xs)))"
    using assms by (intro debounce_sorted pre)
  have b: "sorted (map fst (snd (debounce threshold initial xs) @ fin))"
    if fin: "finalize final_threshold (fst (debounce threshold initial xs)) = Inr fin" for fin
  proof (cases "fin = []")
    case True
    with all show ?thesis by (simp add: sorted_append)
  next
    case False
    with fin obtain n t0 ts where
      "candidate_times (fst (debounce threshold initial xs)) = t0 # ts" and "fin = [(t0, n)]"
      by (auto simp: finalize_def split: option.splits if_splits list.splits)
    with all show ?thesis by (auto simp: sorted_append)
  qed
  have c: "(\<exists>ys. candidate_times (fst (step threshold st x)) = candidate_times st @ ys) \<and>
           (candidate_times st \<noteq> []
              \<longrightarrow> hd (candidate_times (fst (step threshold st x))) = hd (candidate_times st))"
    if "candidate_street st \<noteq> None \<and>
        candidate_street (fst (step threshold st x)) = candidate_street st"
  proof -
    from that obtain ys where
      "candidate_times (fst (step threshold st x)) = candidate_times st @ ys"
      using step_first_fixed by blast
    then show ?thesis by auto
  qed
  have d: "raised (map (label_of g start)
                      (retained downsample 0
                         (map (\<lambda>p. (fst p, fst (snd p), Some (K (snd (snd p))))) tps))) = None \<and>
            length (processed (map (label_of g start)
                      (retained downsample 0
                         (map (\<lambda>p. (fst p, fst (snd p), Some (K (snd (snd p))))) tps))))
              = length (retained downsample 0 tps) \<and>
            sorted (map snd
              (processed (map (label_of g start)
                 (retained downsample 0
                    (map (\<lambda>p. (fst p, fst (snd p), Some (K (snd (snd p))))) tps)))))"
    if "(K = Naive \<or> K = Aware) \<and> (start = None \<or> (\<exists>s. start = Some (K s))) \<and>
        sorted (map (\<lambda>p. snd (snd p)) tps)"
  proof -
    from that have k: "K = Naive \<or> K = Aware"
      and st: "start = None \<or> (\<exists>s. start = Some (K s))"
      and so: "sorted (map (\<lambda>p. snd (snd p)) tps)"
      by blast+
    note o = offsets_of_chronological [OF k st so, of g downsample 0]
    show ?thesis by (intro conjI) (rule o)+
  qed
  from a b c d show ?thesis by blast
qed

theorem hit_times_sorted_witness:
  "sorted (map snd [(Some ''A'', 0 :: real), (Some ''A'', 10), (Some ''B'', 20),
                    (Some ''B'', 30), (Some ''B'', 40)]) \<and>
   sorted (candidate_times
     (fst (debounce 3 initial
        (take 4 [(Some ''A'', 0), (Some ''A'', 10), (Some ''B'', 20), (Some ''B'', 30),
                 (Some ''B'', 40)])))) \<and>
   candidate_times
     (fst (debounce 3 initial
        (take 4 [(Some ''A'', 0), (Some ''A'', 10), (Some ''B'', 20), (Some ''B'', 30),
                 (Some ''B'', 40)]))) = [20, 30] \<and>
   sorted (map fst
     (snd (debounce 2 initial
        [(Some ''A'', 0), (Some ''A'', 10), (Some ''B'', 20), (Some ''C'', 30),
         (Some ''C'', 40)]) @ [])) \<and>
   snd (debounce 2 initial
        [(Some ''A'', 0), (Some ''A'', 10), (Some ''B'', 20), (Some ''C'', 30),
         (Some ''C'', 40)]) = [(0, ''A''), (30, ''C'')] \<and>
   candidate_times
     (fst (step 5 \<lparr>confirmed_street = None, candidate_street = Some ''A'',
                    candidate_times = [3, 4]\<rparr> (Some ''A'', 1)))
     = [3, 4] @ [1] \<and>
   map (label_of (\<lambda>la lo. None) None)
     (retained 1 0
        (map (\<lambda>p. (fst p, fst (snd p), Some (Aware (snd (snd p))))) [(0, 0, 5), (0, 0, 7)]))
     = [Inr (None, 0), Inr (None, 0)]"
  using
    hit_times_sorted
      [of "[(Some ''A'', 0), (Some ''A'', 10), (Some ''B'', 20), (Some ''B'', 30),
            (Some ''B'', 40)]"
          3 4 2
          "\<lparr>confirmed_street = None, candidate_street = Some ''A'', candidate_times = [3, 4]\<rparr>"
          "(Some ''A'', 1)" Aware None "[(0, 0, 5), (0, 0, 7)]" "\<lambda>la lo. None" 1]
    hit_times_sorted
      [of "[(Some ''A'', 0), (Some ''A'', 10), (Some ''B'', 20), (Some ''C'', 30),
            (Some ''C'', 40)]"
          2 5 2
          "\<lparr>confirmed_street = None, candidate_street = Some ''A'', candidate_times = [3, 4]\<rparr>"
          "(Some ''A'', 1)" Aware None "[(0, 0, 5), (0, 0, 7)]" "\<lambda>la lo. None" 1]
  by (simp add: step_def initial_def label_of_def time_diff_of_def)

end
